theory Spec2Isabelle
  imports Main
begin

section \<open>JavaScript strings\<close>

text \<open>
  A JavaScript string is a sequence of UTF-16 code units and \<open>.length\<close> counts them.
  The model is an Isabelle \<open>string\<close> in which every \<open>char\<close> stands for one code unit
  in the range U+0000..U+00FF, so \<open>length\<close> is \<open>.length\<close>. The built-ins \<open>trim\<close> and
  \<open>toLowerCase\<close> are given on that range as ECMAScript defines them.
\<close>

definition isWhiteSpace :: "char \<Rightarrow> bool" where
  \<comment> \<open>WhiteSpace and LineTerminator below U+0100: TAB, LF, VT, FF, CR, SP, NBSP.\<close>
  "isWhiteSpace c \<longleftrightarrow> of_char c \<in> {9, 10, 11, 12, 13, 32, 160 :: nat}"

definition trim :: "string \<Rightarrow> string" where
  "trim s = rev (dropWhile isWhiteSpace (rev (dropWhile isWhiteSpace s)))"

definition lower_char :: "char \<Rightarrow> char" where
  \<comment> \<open>A..Z and the Latin-1 capitals U+00C0..U+00DE (U+00D7 is the multiplication sign).\<close>
  "lower_char c =
     (let n = of_char c :: nat
      in if (65 \<le> n \<and> n \<le> 90) \<or> (192 \<le> n \<and> n \<le> 222 \<and> n \<noteq> 215)
         then char_of (n + 32) else c)"

definition toLowerCase :: "string \<Rightarrow> string" where
  "toLowerCase s = map lower_char s"

definition split_first :: "char \<Rightarrow> string \<Rightarrow> string" where
  \<comment> \<open>\<open>s.split(sep)[0]\<close>: the text before the first separator, all of \<open>s\<close> without one.\<close>
  "split_first sep s = takeWhile (\<lambda>c. c \<noteq> sep) s"

section \<open>Regular expressions\<close>

text \<open>
  The email pattern is anchored at both ends, has no flags, no groups and no
  back-references, so \<open>RegExp.prototype.test\<close> decides membership of the whole string in the
  pattern's language. The matcher works by derivatives.
\<close>

datatype rexp =
    Zero
  | One
  | Atom "char \<Rightarrow> bool"
  | Alt rexp rexp
  | Times rexp rexp
  | Star rexp

primrec nullable :: "rexp \<Rightarrow> bool" where
  "nullable Zero = False"
| "nullable One = True"
| "nullable (Atom p) = False"
| "nullable (Alt r s) = (nullable r \<or> nullable s)"
| "nullable (Times r s) = (nullable r \<and> nullable s)"
| "nullable (Star r) = True"

primrec deriv :: "char \<Rightarrow> rexp \<Rightarrow> rexp" where
  "deriv c Zero = Zero"
| "deriv c One = Zero"
| "deriv c (Atom p) = (if p c then One else Zero)"
| "deriv c (Alt r s) = Alt (deriv c r) (deriv c s)"
| "deriv c (Times r s) =
     (if nullable r then Alt (Times (deriv c r) s) (deriv c s) else Times (deriv c r) s)"
| "deriv c (Star r) = Times (deriv c r) (Star r)"

primrec matches :: "rexp \<Rightarrow> string \<Rightarrow> bool" where
  "matches r [] = nullable r"
| "matches r (c # cs) = matches (deriv c r) cs"

definition one_or_more :: "rexp \<Rightarrow> rexp" where
  \<comment> \<open>the quantifier \<open>+\<close>\<close>
  "one_or_more r = Times r (Star r)"

definition two_or_more :: "rexp \<Rightarrow> rexp" where
  \<comment> \<open>the quantifier \<open>{2,}\<close>\<close>
  "two_or_more r = Times r (Times r (Star r))"

definition lit :: "char \<Rightarrow> rexp" where
  "lit a = Atom (\<lambda>c. c = a)"

definition is_letter :: "char \<Rightarrow> bool" where
  \<comment> \<open>\<open>A-Za-z\<close>\<close>
  "is_letter c \<longleftrightarrow> (let n = of_char c :: nat in (65 \<le> n \<and> n \<le> 90) \<or> (97 \<le> n \<and> n \<le> 122))"

definition is_digit :: "char \<Rightarrow> bool" where
  \<comment> \<open>\<open>0-9\<close>\<close>
  "is_digit c \<longleftrightarrow> (let n = of_char c :: nat in 48 \<le> n \<and> n \<le> 57)"

definition local_char :: "char \<Rightarrow> bool" where
  \<comment> \<open>\<open>[A-Za-z0-9._%+-]\<close>\<close>
  "local_char c \<longleftrightarrow> is_letter c \<or> is_digit c \<or> c \<in> set ''._%+-''"

definition domain_char :: "char \<Rightarrow> bool" where
  \<comment> \<open>\<open>[A-Za-z0-9.-]\<close>\<close>
  "domain_char c \<longleftrightarrow> is_letter c \<or> is_digit c \<or> c \<in> set ''.-''"

definition emailRegex :: rexp where
  \<comment> \<open>\<open>/^[A-Za-z0-9._%+-]+@[A-Za-z0-9.-]+\.[A-Za-z]{2,}$/\<close>\<close>
  "emailRegex =
     Times (one_or_more (Atom local_char))
       (Times (lit CHR ''@'')
         (Times (one_or_more (Atom domain_char))
           (Times (lit CHR ''.'') (two_or_more (Atom is_letter)))))"

subsection \<open>The language of a pattern\<close>

inductive_set star :: "string set \<Rightarrow> string set" for A :: "string set" where
  star_empty: "[] \<in> star A"
| star_append: "u \<in> A \<Longrightarrow> v \<in> star A \<Longrightarrow> u @ v \<in> star A"

primrec lang :: "rexp \<Rightarrow> string set" where
  "lang Zero = {}"
| "lang One = {[]}"
| "lang (Atom p) = {[c] | c. p c}"
| "lang (Alt r s) = lang r \<union> lang s"
| "lang (Times r s) = {u @ v | u v. u \<in> lang r \<and> v \<in> lang s}"
| "lang (Star r) = star (lang r)"

definition email_shape :: "string \<Rightarrow> bool" where
  \<comment> \<open>The shape in words: a local part, \<open>@\<close>, a domain, a dot and a final label of two or
      more letters.\<close>
  "email_shape s \<longleftrightarrow>
     (\<exists>l d t. s = l @ ''@'' @ d @ ''.'' @ t
        \<and> l \<noteq> [] \<and> list_all local_char l
        \<and> d \<noteq> [] \<and> list_all domain_char d
        \<and> 2 \<le> length t \<and> list_all is_letter t)"

section \<open>Values\<close>

datatype json =
    JNull
  | JBool bool
  | JNumber string  \<comment> \<open>the number, kept as its literal; the handler never inspects it\<close>
  | JString string
  | JArray "json list"
  | JObject "(string \<times> json) list"  \<comment> \<open>own properties; lookup takes the first binding\<close>

text \<open>A value read from a parsed body is a \<open>json\<close>, or \<open>None\<close> for \<open>undefined\<close>.\<close>

datatype exn = SyntaxError | TypeError | ClientError

definition destructure :: "json \<Rightarrow> exn + (json option \<times> json option \<times> json option)" where
  \<comment> \<open>\<open>const { name, email, message } = body\<close>: throws on \<open>null\<close>; booleans, numbers,
      strings and arrays have none of the three properties.\<close>
  "destructure b =
     (case b of
        JNull \<Rightarrow> Inl TypeError
      | JObject kvs \<Rightarrow> Inr (map_of kvs ''name'', map_of kvs ''email'', map_of kvs ''message'')
      | _ \<Rightarrow> Inr (None, None, None))"

definition call_trim :: "json option \<Rightarrow> exn + string" where
  \<comment> \<open>\<open>v.trim()\<close>: only a string has the method; on anything else the call throws.\<close>
  "call_trim v = (case v of Some (JString s) \<Rightarrow> Inr (trim s) | _ \<Rightarrow> Inl TypeError)"

definition opt_trim :: "json option \<Rightarrow> exn + string option" where
  \<comment> \<open>\<open>v?.trim()\<close>: \<open>undefined\<close> when \<open>v\<close> is \<open>undefined\<close> or \<open>null\<close>.\<close>
  "opt_trim v =
     (case v of
        None \<Rightarrow> Inr None
      | Some JNull \<Rightarrow> Inr None
      | _ \<Rightarrow> (case call_trim v of Inl e \<Rightarrow> Inl e | Inr s \<Rightarrow> Inr (Some s)))"

section \<open>Rate limiting\<close>

definition RATE_LIMIT_WINDOW_MS :: int where
  "RATE_LIMIT_WINDOW_MS = 60 * 60 * 1000"

definition MAX_SUBMISSIONS_PER_WINDOW :: nat where
  "MAX_SUBMISSIONS_PER_WINDOW = 5"

record rate_record =
  count :: nat
  windowStart :: int

type_synonym rate_store = "string \<rightharpoonup> rate_record"

definition rateLimitStore :: rate_store where
  \<comment> \<open>\<open>new Map()\<close>: the store when the function instance starts\<close>
  "rateLimitStore = Map.empty"

definition isRateLimited :: "int \<Rightarrow> string \<Rightarrow> rate_store \<Rightarrow> bool \<times> rate_store" where
  \<comment> \<open>The first argument is the value of \<open>Date.now()\<close>; the store is returned updated.\<close>
  "isRateLimited t ip st =
     (case st ip of
        None \<Rightarrow> (False, st(ip \<mapsto> \<lparr>count = 1, windowStart = t\<rparr>))
      | Some record \<Rightarrow>
          if t - windowStart record > RATE_LIMIT_WINDOW_MS
          then (False, st(ip \<mapsto> \<lparr>count = 1, windowStart = t\<rparr>))
          else if count record \<ge> MAX_SUBMISSIONS_PER_WINDOW then (True, st)
          else (False, st(ip \<mapsto> record\<lparr>count := count record + 1\<rparr>)))"

definition in_window :: "rate_store \<Rightarrow> string \<Rightarrow> int \<Rightarrow> bool" where
  \<comment> \<open>At time \<open>t\<close> the address has a record whose window has not elapsed: the negation of
      the reset condition of \<open>isRateLimited\<close>.\<close>
  "in_window st ip t =
     (case st ip of None \<Rightarrow> False | Some record \<Rightarrow> \<not> t - windowStart record > RATE_LIMIT_WINDOW_MS)"

section \<open>Validation\<close>

record validation =
  valid :: bool
  error :: "string option"

definition ok :: validation where
  "ok = \<lparr>valid = True, error = None\<rparr>"

definition invalid :: "string \<Rightarrow> validation" where
  "invalid m = \<lparr>valid = False, error = Some m\<rparr>"

definition validateName :: "json option \<Rightarrow> exn + validation" where
  "validateName v =
     (case opt_trim v of
        Inl e \<Rightarrow> Inl e
      | Inr None \<Rightarrow> Inr (invalid ''Name is required'')
      | Inr (Some trimmed) \<Rightarrow>
          Inr (if trimmed = [] \<or> length trimmed = 0 then invalid ''Name is required''
               else if length trimmed < 2 then invalid ''Name must be at least 2 characters''
               else if length trimmed > 100 then invalid ''Name must be less than 100 characters''
               else ok))"

definition validateEmail :: "json option \<Rightarrow> exn + validation" where
  "validateEmail v =
     (case opt_trim v of
        Inl e \<Rightarrow> Inl e
      | Inr None \<Rightarrow> Inr (invalid ''Email is required'')
      | Inr (Some t) \<Rightarrow>
          (let trimmed = toLowerCase t
           in Inr (if trimmed = [] \<or> length trimmed = 0 then invalid ''Email is required''
                   else if length trimmed > 255
                     then invalid ''Email must be less than 255 characters''
                   else if \<not> matches emailRegex trimmed
                     then invalid ''Please enter a valid email address''
                   else ok)))"

definition validateMessage :: "json option \<Rightarrow> exn + validation" where
  "validateMessage v =
     (case opt_trim v of
        Inl e \<Rightarrow> Inl e
      | Inr None \<Rightarrow> Inr (invalid ''Message is required'')
      | Inr (Some trimmed) \<Rightarrow>
          Inr (if trimmed = [] \<or> length trimmed = 0 then invalid ''Message is required''
               else if length trimmed < 10 then invalid ''Message must be at least 10 characters''
               else if length trimmed > 5000
                 then invalid ''Message must be less than 5000 characters''
               else ok))"

definition name_errors :: "string set" where
  "name_errors = {''Name is required'', ''Name must be at least 2 characters'',
     ''Name must be less than 100 characters''}"

definition email_errors :: "string set" where
  "email_errors = {''Email is required'', ''Email must be less than 255 characters'',
     ''Please enter a valid email address''}"

definition message_errors :: "string set" where
  "message_errors = {''Message is required'', ''Message must be at least 10 characters'',
     ''Message must be less than 5000 characters''}"

section \<open>Requests, responses and the environment\<close>

record request =
  req_method :: string
  req_headers :: "(string \<times> string) list"
    \<comment> \<open>the header list, names in lower case; \<open>req.headers.get\<close> is \<open>map_of\<close>\<close>
  req_json :: "exn + json"  \<comment> \<open>what \<open>await req.json()\<close> gives: a rejection or the parsed body\<close>

record contact_row =
  row_name :: string
  row_email :: string
  row_message :: string

record env =
  now :: int  \<comment> \<open>\<open>Date.now()\<close>, in milliseconds\<close>
  createClient_throws :: "exn option"  \<comment> \<open>an exception raised while the client is created\<close>
  insert_result :: "exn + string option"
    \<comment> \<open>what the awaited insert of this request gives: an exception, or \<open>insertError\<close>
        (its message), \<open>None\<close> for success\<close>

datatype body = Text string | Json json  \<comment> \<open>\<open>Json j\<close> is \<open>JSON.stringify(j)\<close>\<close>

record response =
  status :: nat
  resp_headers :: "(string \<times> string) list"
  resp_body :: body

datatype effect = ReadJson | Insert contact_row

record outcome =
  response :: response
  store :: rate_store
  effects :: "effect list"

definition corsHeaders :: "(string \<times> string) list" where
  "corsHeaders =
     [(''Access-Control-Allow-Origin'', ''*''),
      (''Access-Control-Allow-Headers'',
       ''authorization, x-client-info, apikey, content-type, x-supabase-client-platform, x-supabase-client-platform-version, x-supabase-client-runtime, x-supabase-client-runtime-version'')]"

definition json_response :: "nat \<Rightarrow> json \<Rightarrow> response" where
  "json_response st j =
     \<lparr>status = st,
      resp_headers = corsHeaders @ [(''Content-Type'', ''application/json'')],
      resp_body = Json j\<rparr>"

definition error_body :: "string option \<Rightarrow> json" where
  \<comment> \<open>\<open>{ error: e }\<close>; a property that is \<open>undefined\<close> is left out by \<open>JSON.stringify\<close>.\<close>
  "error_body e = (case e of None \<Rightarrow> JObject [] | Some m \<Rightarrow> JObject [(''error'', JString m)])"

definition success_body :: json where
  "success_body = JObject [(''success'', JBool True), (''message'', JString ''Message sent successfully'')]"

definition clientIP :: "request \<Rightarrow> string" where
  "clientIP req =
     (case map_option (\<lambda>v. trim (split_first CHR '','' v)) (map_of (req_headers req) ''x-forwarded-for'') of
        Some (c # cs) \<Rightarrow> c # cs
      | _ \<Rightarrow>
        (case map_of (req_headers req) ''cf-connecting-ip'' of
           Some (c # cs) \<Rightarrow> c # cs
         | _ \<Rightarrow> ''unknown''))"

section \<open>The handler\<close>

definition insert_stage ::
  "env \<Rightarrow> json option \<Rightarrow> json option \<Rightarrow> json option \<Rightarrow> (exn + response) \<times> effect list" where
  "insert_stage e nm em msg =
     (case createClient_throws e of
        Some x \<Rightarrow> (Inl x, [])
      | None \<Rightarrow>
        (case call_trim nm of
           Inl x \<Rightarrow> (Inl x, [])
         | Inr n \<Rightarrow>
           (case call_trim em of
              Inl x \<Rightarrow> (Inl x, [])
            | Inr a \<Rightarrow>
              (case call_trim msg of
                 Inl x \<Rightarrow> (Inl x, [])
               | Inr m \<Rightarrow>
                 (let row = \<lparr>row_name = n, row_email = toLowerCase a, row_message = m\<rparr>
                  in case insert_result e of
                       Inl x \<Rightarrow> (Inl x, [Insert row])
                     | Inr (Some insertError) \<Rightarrow>
                         (Inr (json_response 500
                                (error_body (Some ''Failed to submit message. Please try again.''))),
                          [Insert row])
                     | Inr None \<Rightarrow> (Inr (json_response 200 success_body), [Insert row]))))))"

definition validate_stage ::
  "env \<Rightarrow> json option \<Rightarrow> json option \<Rightarrow> json option \<Rightarrow> (exn + response) \<times> effect list" where
  "validate_stage e nm em msg =
     (case validateName nm of
        Inl x \<Rightarrow> (Inl x, [])
      | Inr nameValidation \<Rightarrow>
        if \<not> valid nameValidation
        then (Inr (json_response 400 (error_body (error nameValidation))), [])
        else
          (case validateEmail em of
             Inl x \<Rightarrow> (Inl x, [])
           | Inr emailValidation \<Rightarrow>
             if \<not> valid emailValidation
             then (Inr (json_response 400 (error_body (error emailValidation))), [])
             else
               (case validateMessage msg of
                  Inl x \<Rightarrow> (Inl x, [])
                | Inr messageValidation \<Rightarrow>
                  if \<not> valid messageValidation
                  then (Inr (json_response 400 (error_body (error messageValidation))), [])
                  else insert_stage e nm em msg)))"

definition try_block ::
  "env \<Rightarrow> rate_store \<Rightarrow> request \<Rightarrow> (exn + response) \<times> rate_store \<times> effect list" where
  "try_block e st req =
     (if req_method req \<noteq> ''POST''
      then (Inr (json_response 405 (error_body (Some ''Method not allowed''))), st, [])
      else
        (case isRateLimited (now e) (clientIP req) st of
           (True, st') \<Rightarrow>
             (Inr (json_response 429
                    (error_body (Some ''Too many submissions. Please try again later.''))),
              st', [])
         | (False, st') \<Rightarrow>
             (case req_json req of
                Inl x \<Rightarrow> (Inl x, st', [ReadJson])
              | Inr b \<Rightarrow>
                (case destructure b of
                   Inl x \<Rightarrow> (Inl x, st', [ReadJson])
                 | Inr (nm, em, msg) \<Rightarrow>
                   (case validate_stage e nm em msg of
                      (r, effs) \<Rightarrow> (r, st', ReadJson # effs))))))"

definition handler :: "env \<Rightarrow> rate_store \<Rightarrow> request \<Rightarrow> outcome" where
  "handler e st req =
     (if req_method req = ''OPTIONS''
      then \<lparr>response = \<lparr>status = 200, resp_headers = corsHeaders, resp_body = Text ''ok''\<rparr>,
            store = st, effects = []\<rparr>
      else
        (case try_block e st req of
           (Inr r, st', effs) \<Rightarrow> \<lparr>response = r, store = st', effects = effs\<rparr>
         | (Inl x, st', effs) \<Rightarrow>
             \<lparr>response = json_response 500
                (error_body (Some ''An unexpected error occurred. Please try again.'')),
              store = st', effects = effs\<rparr>))"

text \<open>A run of the instance: requests served one after the other on the shared store.\<close>

fun serve_all :: "rate_store \<Rightarrow> (env \<times> request) list \<Rightarrow> outcome list" where
  "serve_all st [] = []"
| "serve_all st ((e, req) # xs) = handler e st req # serve_all (store (handler e st req)) xs"

fun store_after :: "rate_store \<Rightarrow> (env \<times> request) list \<Rightarrow> rate_store" where
  "store_after st [] = st"
| "store_after st ((e, req) # xs) = store_after (store (handler e st req)) xs"

definition too_many :: response where
  "too_many =
     json_response 429 (error_body (Some ''Too many submissions. Please try again later.''))"

definition unexpected :: response where
  "unexpected =
     json_response 500 (error_body (Some ''An unexpected error occurred. Please try again.''))"

definition structured :: "response \<Rightarrow> bool" where
  \<comment> \<open>The two shapes of the interface: \<open>{error}\<close> with 400, 405, 429 or 500, or
      \<open>{success: true, message}\<close> with 200.\<close>
  "structured r \<longleftrightarrow>
     (status r \<in> {400, 405, 429, 500} \<and> (\<exists>m. resp_body r = Json (JObject [(''error'', JString m)])))
     \<or> (status r = 200
        \<and> (\<exists>m. resp_body r = Json (JObject [(''success'', JBool True), (''message'', JString m)])))"

definition name_out_of_bounds :: "json option \<Rightarrow> bool" where
  \<comment> \<open>A name that is missing, \<open>null\<close>, or text whose trimmed length is below 2 or above 100.\<close>
  "name_out_of_bounds v =
     (case v of
        None \<Rightarrow> True
      | Some JNull \<Rightarrow> True
      | Some (JString n) \<Rightarrow> length (trim n) < 2 \<or> length (trim n) > 100
      | _ \<Rightarrow> False)"

definition post_from :: "string \<Rightarrow> request \<Rightarrow> bool" where
  \<comment> \<open>A POST request that the handler attributes to the source address \<open>a\<close>.\<close>
  "post_from a req \<longleftrightarrow> req_method req = ''POST'' \<and> clientIP req = a"

definition headerless :: "request \<Rightarrow> bool" where
  \<comment> \<open>Neither of the two headers that \<open>clientIP\<close> reads is present.\<close>
  "headerless req \<longleftrightarrow>
     map_of (req_headers req) ''x-forwarded-for'' = None
     \<and> map_of (req_headers req) ''cf-connecting-ip'' = None"

definition accepted :: "(request \<Rightarrow> bool) \<Rightarrow> rate_store \<Rightarrow> (env \<times> request) list \<Rightarrow> nat" where
  \<comment> \<open>How many requests of a run satisfy \<open>P\<close> and are not answered 429, each request paired
      with its own outcome.\<close>
  "accepted P st xs =
     length (filter (\<lambda>(x, out). P (snd x) \<and> status (response out) \<noteq> 429) (zip xs (serve_all st xs)))"

section \<open>The matcher decides the language\<close>

lemma nullable_iff: "nullable r \<longleftrightarrow> [] \<in> lang r"
  by (induction r) (auto intro: star.star_empty)

lemma star_Cons_elim:
  assumes "x \<in> star A" and "x = c # w"
  shows "\<exists>u v. w = u @ v \<and> c # u \<in> A \<and> v \<in> star A"
  using assms
proof (induction arbitrary: w rule: star.induct)
  case star_empty
  then show ?case by simp
next
  case (star_append u v)
  show ?case
  proof (cases u)
    case Nil
    with star_append show ?thesis by simp
  next
    case (Cons a u')
    with star_append.prems have "a = c" and "w = u' @ v" by simp_all
    with Cons star_append.hyps show ?thesis by blast
  qed
qed

lemma star_Cons_iff:
  "c # w \<in> star A \<longleftrightarrow> (\<exists>u v. w = u @ v \<and> c # u \<in> A \<and> v \<in> star A)"
proof
  assume "c # w \<in> star A"
  then show "\<exists>u v. w = u @ v \<and> c # u \<in> A \<and> v \<in> star A"
    by (rule star_Cons_elim) simp
next
  assume "\<exists>u v. w = u @ v \<and> c # u \<in> A \<and> v \<in> star A"
  then obtain u v where "w = u @ v" "c # u \<in> A" "v \<in> star A" by blast
  then show "c # w \<in> star A"
    using star.star_append [of "c # u" A v] by simp
qed

lemma lang_deriv: "lang (deriv c r) = {w. c # w \<in> lang r}"
proof (induction r)
  case (Times r s)
  then show ?case
    by (auto simp: nullable_iff Cons_eq_append_conv)
next
  case (Star r)
  then show ?case by (auto simp: star_Cons_iff)
qed auto

lemma matches_iff: "matches r s \<longleftrightarrow> s \<in> lang r"
  by (induction s arbitrary: r) (simp_all add: nullable_iff lang_deriv)

lemma star_Atom: "star {[c] | c. p c} = {w. list_all p w}"
proof (intro set_eqI iffI)
  fix w assume "w \<in> star {[c] | c. p c}"
  then show "w \<in> {w. list_all p w}"
    by (induction rule: star.induct) auto
next
  fix w assume "w \<in> {w. list_all p w}"
  then have "list_all p w" by simp
  then show "w \<in> star {[c] | c. p c}"
  proof (induction w)
    case Nil
    show ?case by (rule star.star_empty)
  next
    case (Cons a w)
    then have "[a] \<in> {[c] | c. p c}" and "w \<in> star {[c] | c. p c}" by simp_all
    then have "[a] @ w \<in> star {[c] | c. p c}" by (rule star.star_append)
    then show ?case by simp
  qed
qed

lemma lang_Atom_Times:
  "w \<in> lang (Times (Atom p) s) \<longleftrightarrow> (\<exists>c v. w = c # v \<and> p c \<and> v \<in> lang s)"
proof
  assume "w \<in> lang (Times (Atom p) s)"
  then show "\<exists>c v. w = c # v \<and> p c \<and> v \<in> lang s" by auto
next
  assume "\<exists>c v. w = c # v \<and> p c \<and> v \<in> lang s"
  then obtain c v where "w = [c] @ v" "[c] \<in> lang (Atom p)" "v \<in> lang s" by auto
  then show "w \<in> lang (Times (Atom p) s)" unfolding lang.simps by blast
qed

lemma lang_one_or_more_Atom:
  "w \<in> lang (one_or_more (Atom p)) \<longleftrightarrow> w \<noteq> [] \<and> list_all p w"
  unfolding one_or_more_def lang_Atom_Times
  by (cases w) (simp_all add: star_Atom)

lemma lang_two_or_more_Atom:
  "w \<in> lang (two_or_more (Atom p)) \<longleftrightarrow> 2 \<le> length w \<and> list_all p w"
  unfolding two_or_more_def lang_Atom_Times
  by (cases w; cases "tl w") (auto simp: star_Atom)

lemma lang_lit_Times: "w \<in> lang (Times (lit a) s) \<longleftrightarrow> (\<exists>v. w = a # v \<and> v \<in> lang s)"
  unfolding lit_def lang_Atom_Times by auto

lemma lang_Times: "w \<in> lang (Times r s) \<longleftrightarrow> (\<exists>u v. w = u @ v \<and> u \<in> lang r \<and> v \<in> lang s)"
  by auto

lemma lang_emailRegex: "s \<in> lang emailRegex \<longleftrightarrow> email_shape s"
proof
  assume "s \<in> lang emailRegex"
  then obtain l r1 where 1: "s = l @ r1" "l \<in> lang (one_or_more (Atom local_char))"
    and "r1 \<in> lang (Times (lit CHR ''@'')
         (Times (one_or_more (Atom domain_char))
           (Times (lit CHR ''.'') (two_or_more (Atom is_letter)))))"
    unfolding emailRegex_def lang_Times [of s] by blast
  then obtain r2 where 2: "r1 = CHR ''@'' # r2"
    and "r2 \<in> lang (Times (one_or_more (Atom domain_char))
           (Times (lit CHR ''.'') (two_or_more (Atom is_letter))))"
    unfolding lang_lit_Times by blast
  then obtain d r3 where 3: "r2 = d @ r3" "d \<in> lang (one_or_more (Atom domain_char))"
    and "r3 \<in> lang (Times (lit CHR ''.'') (two_or_more (Atom is_letter)))"
    unfolding lang_Times [of r2] by blast
  then obtain t where 4: "r3 = CHR ''.'' # t" "t \<in> lang (two_or_more (Atom is_letter))"
    unfolding lang_lit_Times by blast
  from 1 2 3 4 have "s = l @ ''@'' @ d @ ''.'' @ t" by simp
  with 1 3 4 show "email_shape s"
    unfolding email_shape_def lang_one_or_more_Atom lang_two_or_more_Atom by blast
next
  assume "email_shape s"
  then obtain l d t where s: "s = l @ ''@'' @ d @ ''.'' @ t"
    and l: "l \<in> lang (one_or_more (Atom local_char))"
    and d: "d \<in> lang (one_or_more (Atom domain_char))"
    and t: "t \<in> lang (two_or_more (Atom is_letter))"
    unfolding email_shape_def lang_one_or_more_Atom lang_two_or_more_Atom by blast
  from t have "CHR ''.'' # t \<in> lang (Times (lit CHR ''.'') (two_or_more (Atom is_letter)))"
    unfolding lang_lit_Times by simp
  with d have "d @ CHR ''.'' # t \<in> lang (Times (one_or_more (Atom domain_char))
           (Times (lit CHR ''.'') (two_or_more (Atom is_letter))))"
    unfolding lang_Times [of "d @ CHR ''.'' # t"] by blast
  then have "CHR ''@'' # d @ CHR ''.'' # t \<in> lang (Times (lit CHR ''@'')
         (Times (one_or_more (Atom domain_char))
           (Times (lit CHR ''.'') (two_or_more (Atom is_letter)))))"
    unfolding lang_lit_Times [of "CHR ''@'' # d @ CHR ''.'' # t"] by simp
  with l have "l @ CHR ''@'' # d @ CHR ''.'' # t \<in> lang emailRegex"
    unfolding emailRegex_def lang_Times [of "l @ CHR ''@'' # d @ CHR ''.'' # t"] by blast
  with s show "s \<in> lang emailRegex" by simp
qed

lemma emailRegex_test: "matches emailRegex s \<longleftrightarrow> email_shape s"
  by (simp add: matches_iff lang_emailRegex)

section \<open>The handler, stage by stage\<close>

lemma isRateLimited_True_store: "isRateLimited t ip st = (True, st') \<Longrightarrow> st' = st"
  by (auto simp: isRateLimited_def split: option.splits if_splits)

lemma handler_limited:
  assumes "req_method req = ''POST''" and "fst (isRateLimited (now e) (clientIP req) st)"
  shows "handler e st req = \<lparr>response = too_many, store = st, effects = []\<rparr>"
proof -
  obtain st' where "isRateLimited (now e) (clientIP req) st = (True, st')"
    using assms(2) by (cases "isRateLimited (now e) (clientIP req) st") auto
  moreover from this have "st' = st" by (rule isRateLimited_True_store)
  ultimately show ?thesis
    using assms(1) by (simp add: handler_def try_block_def too_many_def)
qed

lemma handler_validated:
  assumes "req_method req = ''POST''"
    and "\<not> fst (isRateLimited (now e) (clientIP req) st)"
    and "req_json req = Inr b" and "destructure b = Inr (nm, em, msg)"
  shows "handler e st req =
     \<lparr>response = (case fst (validate_stage e nm em msg) of Inr r \<Rightarrow> r | Inl x \<Rightarrow> unexpected),
      store = snd (isRateLimited (now e) (clientIP req) st),
      effects = ReadJson # snd (validate_stage e nm em msg)\<rparr>"
proof -
  obtain st' where "isRateLimited (now e) (clientIP req) st = (False, st')"
    using assms(2) by (cases "isRateLimited (now e) (clientIP req) st") auto
  then show ?thesis
    using assms(1,3,4)
    by (cases "validate_stage e nm em msg")
       (simp add: handler_def try_block_def unexpected_def split: sum.splits)
qed

lemma validateName_string:
  "validateName (Some (JString n)) =
     Inr (if trim n = [] then invalid ''Name is required''
          else if length (trim n) < 2 then invalid ''Name must be at least 2 characters''
          else if length (trim n) > 100 then invalid ''Name must be less than 100 characters''
          else ok)"
  by (simp add: validateName_def opt_trim_def call_trim_def)

lemma validateMessage_string:
  "validateMessage (Some (JString n)) =
     Inr (if trim n = [] then invalid ''Message is required''
          else if length (trim n) < 10 then invalid ''Message must be at least 10 characters''
          else if length (trim n) > 5000 then invalid ''Message must be less than 5000 characters''
          else ok)"
  by (simp add: validateMessage_def opt_trim_def call_trim_def)

lemma validateEmail_string:
  "validateEmail (Some (JString a)) =
     Inr (if toLowerCase (trim a) = [] then invalid ''Email is required''
          else if length (toLowerCase (trim a)) > 255 then invalid ''Email must be less than 255 characters''
          else if \<not> matches emailRegex (toLowerCase (trim a)) then invalid ''Please enter a valid email address''
          else ok)"
  by (simp add: validateEmail_def opt_trim_def call_trim_def Let_def)

text \<open>
  Claim C1. A POST request that passes the rate limit, whose body is an object with a name of
  trimmed length 2 to 100, an email that after trimming and lowercasing matches the pattern
  and has at most 255 characters, and a message of trimmed length 10 to 5000, and whose insert
  succeeds, is persisted as the normalized row (trimmed name, trimmed and lowercased email,
  trimmed message) and answered with status 200 and the body
  \<open>{success: true, message: "Message sent successfully"}\<close>.
\<close>

theorem valid_submission_is_persisted:
  assumes "req_method req = ''POST''"
    and "\<not> fst (isRateLimited (now e) (clientIP req) st)"
    and "req_json req = Inr (JObject kvs)"
    and "map_of kvs ''name'' = Some (JString n)"
    and "map_of kvs ''email'' = Some (JString a)"
    and "map_of kvs ''message'' = Some (JString m)"
    and "2 \<le> length (trim n)" and "length (trim n) \<le> 100"
    and "matches emailRegex (toLowerCase (trim a))"
    and "length (toLowerCase (trim a)) \<le> 255"
    and "10 \<le> length (trim m)" and "length (trim m) \<le> 5000"
    and "createClient_throws e = None" and "insert_result e = Inr None"
  shows "effects (handler e st req) =
           [ReadJson, Insert \<lparr>row_name = trim n, row_email = toLowerCase (trim a), row_message = trim m\<rparr>]
       \<and> status (response (handler e st req)) = 200
       \<and> resp_body (response (handler e st req)) =
           Json (JObject [(''success'', JBool True), (''message'', JString ''Message sent successfully'')])"
proof -
  have d: "destructure (JObject kvs) = Inr (Some (JString n), Some (JString a), Some (JString m))"
    using assms(4-6) by (simp add: destructure_def)
  have ne: "trim n \<noteq> []" "trim m \<noteq> []" "toLowerCase (trim a) \<noteq> []"
    using assms(7,11,9) by (auto simp: emailRegex_test email_shape_def)
  have v: "validate_stage e (Some (JString n)) (Some (JString a)) (Some (JString m)) =
     (Inr (json_response 200 success_body),
      [Insert \<lparr>row_name = trim n, row_email = toLowerCase (trim a), row_message = trim m\<rparr>])"
    using assms(7-14) ne
    by (simp add: validate_stage_def validateName_string validateEmail_string
        validateMessage_string ok_def insert_stage_def call_trim_def)
  show ?thesis
    unfolding handler_validated [OF assms(1-3) d] v
    by (simp add: json_response_def success_body_def)
qed

lemma trim_Al: "trim ''Al'' = ''Al''"
  by (simp add: trim_def isWhiteSpace_def)

lemma trim_Hello: "trim ''Hello there!'' = ''Hello there!''"
  by (simp add: trim_def isWhiteSpace_def)

lemma lower_AB: "toLowerCase (trim ''A@B.COM'') = ''a@b.com''"
  by code_simp

lemma matches_ab: "matches emailRegex ''a@b.com''"
  by code_simp

text \<open>
  The example of the specification: \<open>{name: "Al", email: "A@B.COM", message: "Hello there!"}\<close>
  is stored as \<open>{name: "Al", email: "a@b.com", message: "Hello there!"}\<close>.
\<close>

theorem valid_submission_is_persisted_witness:
  "let e = \<lparr>now = 0, createClient_throws = None, insert_result = Inr None\<rparr>;
       req = \<lparr>req_method = ''POST'', req_headers = [],
              req_json = Inr (JObject [(''name'', JString ''Al''), (''email'', JString ''A@B.COM''),
                                       (''message'', JString ''Hello there!'')])\<rparr>
   in effects (handler e rateLimitStore req) =
        [ReadJson, Insert \<lparr>row_name = ''Al'', row_email = ''a@b.com'', row_message = ''Hello there!''\<rparr>]
      \<and> status (response (handler e rateLimitStore req)) = 200
      \<and> resp_body (response (handler e rateLimitStore req)) =
          Json (JObject [(''success'', JBool True), (''message'', JString ''Message sent successfully'')])"
proof -
  let ?e = "\<lparr>now = 0, createClient_throws = None, insert_result = Inr None\<rparr>"
  let ?kvs = "[(''name'', JString ''Al''), (''email'', JString ''A@B.COM''),
               (''message'', JString ''Hello there!'')]"
  let ?req = "\<lparr>req_method = ''POST'', req_headers = [], req_json = Inr (JObject ?kvs)\<rparr>"
  have 1: "req_method ?req = ''POST''" by simp
  have 2: "\<not> fst (isRateLimited (now ?e) (clientIP ?req) rateLimitStore)"
    by (simp add: isRateLimited_def rateLimitStore_def)
  have 3: "req_json ?req = Inr (JObject ?kvs)" by simp
  have 4: "map_of ?kvs ''name'' = Some (JString ''Al'')"
    and 5: "map_of ?kvs ''email'' = Some (JString ''A@B.COM'')"
    and 6: "map_of ?kvs ''message'' = Some (JString ''Hello there!'')" by simp_all
  have 7: "2 \<le> length (trim ''Al'')" "length (trim ''Al'') \<le> 100"
    by (simp_all add: trim_Al)
  have 8: "matches emailRegex (toLowerCase (trim ''A@B.COM''))"
    "length (toLowerCase (trim ''A@B.COM'')) \<le> 255"
    unfolding lower_AB by (rule matches_ab) simp
  have 9: "10 \<le> length (trim ''Hello there!'')" "length (trim ''Hello there!'') \<le> 5000"
    by (simp_all add: trim_Hello)
  have 10: "createClient_throws ?e = None" "insert_result ?e = Inr None" by simp_all
  from valid_submission_is_persisted [OF 1 2 3 4 5 6 7 8 9 10] show ?thesis
    by (simp only: Let_def trim_Al trim_Hello lower_AB)
qed


lemma validateName_error:
  "validateName v = Inr r \<Longrightarrow> \<not> valid r \<Longrightarrow> \<exists>m\<in>name_errors. error r = Some m"
  by (auto simp: validateName_def name_errors_def invalid_def ok_def
      split: sum.splits option.splits if_splits)

lemma validateEmail_error:
  "validateEmail v = Inr r \<Longrightarrow> \<not> valid r \<Longrightarrow> \<exists>m\<in>email_errors. error r = Some m"
  by (auto simp: validateEmail_def email_errors_def invalid_def ok_def Let_def
      split: sum.splits option.splits if_splits)

lemma validateMessage_error:
  "validateMessage v = Inr r \<Longrightarrow> \<not> valid r \<Longrightarrow> \<exists>m\<in>message_errors. error r = Some m"
  by (auto simp: validateMessage_def message_errors_def invalid_def ok_def
      split: sum.splits option.splits if_splits)

lemma bad_request_body:
  "status (json_response 400 (error_body (Some m))) = 400"
  "resp_body (json_response 400 (error_body (Some m))) = Json (JObject [(''error'', JString m)])"
  by (simp_all add: json_response_def error_body_def)

lemma errors_disjoint:
  "name_errors \<inter> email_errors = {}" "name_errors \<inter> message_errors = {}"
  "email_errors \<inter> message_errors = {}"
  by (simp_all add: name_errors_def email_errors_def message_errors_def)

text \<open>
  Claim C3. Once a POST request has passed the rate limit and its body has been read, the
  validations run in the order name, email, message and the first one that fails decides the
  response: status 400 with that validator's own message and nothing else. The later fields
  are arbitrary here, so they play no part; a message that is not even text changes nothing
  when the name has already failed. The three sets of messages are pairwise disjoint.
\<close>

theorem validation_order_first_failure:
  assumes "req_method req = ''POST''"
    and "\<not> fst (isRateLimited (now e) (clientIP req) st)"
    and "req_json req = Inr b" and "destructure b = Inr (nm, em, msg)"
  shows "(\<forall>vn. validateName nm = Inr vn \<and> \<not> valid vn \<longrightarrow>
            status (response (handler e st req)) = 400
          \<and> (\<exists>m\<in>name_errors. error vn = Some m
                \<and> resp_body (response (handler e st req)) = Json (JObject [(''error'', JString m)])))
       \<and> (\<forall>vn ve. validateName nm = Inr vn \<and> valid vn \<and> validateEmail em = Inr ve \<and> \<not> valid ve \<longrightarrow>
            status (response (handler e st req)) = 400
          \<and> (\<exists>m\<in>email_errors. error ve = Some m
                \<and> resp_body (response (handler e st req)) = Json (JObject [(''error'', JString m)])))
       \<and> (\<forall>vn ve vm. validateName nm = Inr vn \<and> valid vn \<and> validateEmail em = Inr ve \<and> valid ve
              \<and> validateMessage msg = Inr vm \<and> \<not> valid vm \<longrightarrow>
            status (response (handler e st req)) = 400
          \<and> (\<exists>m\<in>message_errors. error vm = Some m
                \<and> resp_body (response (handler e st req)) = Json (JObject [(''error'', JString m)])))
       \<and> name_errors \<inter> email_errors = {} \<and> name_errors \<inter> message_errors = {}
       \<and> email_errors \<inter> message_errors = {}"
proof -
  note h = handler_validated [OF assms]
  have 1: "status (response (handler e st req)) = 400
          \<and> (\<exists>m\<in>name_errors. error vn = Some m
                \<and> resp_body (response (handler e st req)) = Json (JObject [(''error'', JString m)]))"
    if "validateName nm = Inr vn" "\<not> valid vn" for vn
  proof -
    from validateName_error [OF that] obtain m where "m \<in> name_errors" "error vn = Some m" by blast
    with that show ?thesis by (auto simp: h validate_stage_def bad_request_body)
  qed
  have 2: "status (response (handler e st req)) = 400
          \<and> (\<exists>m\<in>email_errors. error ve = Some m
                \<and> resp_body (response (handler e st req)) = Json (JObject [(''error'', JString m)]))"
    if "validateName nm = Inr vn" "valid vn" "validateEmail em = Inr ve" "\<not> valid ve" for vn ve
  proof -
    from validateEmail_error [OF that(3,4)] obtain m where "m \<in> email_errors" "error ve = Some m" by blast
    with that show ?thesis by (auto simp: h validate_stage_def bad_request_body)
  qed
  have 3: "status (response (handler e st req)) = 400
          \<and> (\<exists>m\<in>message_errors. error vm = Some m
                \<and> resp_body (response (handler e st req)) = Json (JObject [(''error'', JString m)]))"
    if "validateName nm = Inr vn" "valid vn" "validateEmail em = Inr ve" "valid ve"
      "validateMessage msg = Inr vm" "\<not> valid vm" for vn ve vm
  proof -
    from validateMessage_error [OF that(5,6)] obtain m where "m \<in> message_errors" "error vm = Some m" by blast
    with that show ?thesis by (auto simp: h validate_stage_def bad_request_body)
  qed
  from 1 2 3 errors_disjoint show ?thesis by blast
qed

lemma trim_A: "trim ''A'' = ''A''"
  by (simp add: trim_def isWhiteSpace_def)

theorem validation_order_first_failure_witness:
  "let e = \<lparr>now = 0, createClient_throws = None, insert_result = Inr None\<rparr>;
       req = \<lparr>req_method = ''POST'', req_headers = [],
              req_json = Inr (JObject [(''name'', JString ''A''), (''email'', JString ''x@y.com''),
                                       (''message'', JString ''Hi'')])\<rparr>
   in status (response (handler e rateLimitStore req)) = 400
      \<and> resp_body (response (handler e rateLimitStore req)) =
          Json (JObject [(''error'', JString ''Name must be at least 2 characters'')])"
proof -
  let ?e = "\<lparr>now = 0, createClient_throws = None, insert_result = Inr None\<rparr>"
  let ?b = "JObject [(''name'', JString ''A''), (''email'', JString ''x@y.com''),
                     (''message'', JString ''Hi'')]"
  let ?req = "\<lparr>req_method = ''POST'', req_headers = [], req_json = Inr ?b\<rparr>"
  have 1: "req_method ?req = ''POST''" by simp
  have 2: "\<not> fst (isRateLimited (now ?e) (clientIP ?req) rateLimitStore)"
    by (simp add: isRateLimited_def rateLimitStore_def)
  have 3: "req_json ?req = Inr ?b" by simp
  have 4: "destructure ?b = Inr (Some (JString ''A''), Some (JString ''x@y.com''), Some (JString ''Hi''))"
    by (simp add: destructure_def)
  have 5: "validateName (Some (JString ''A'')) = Inr (invalid ''Name must be at least 2 characters'')"
    by (simp add: validateName_string trim_A)
  have 6: "\<not> valid (invalid ''Name must be at least 2 characters'')"
    "error (invalid ''Name must be at least 2 characters'') = Some ''Name must be at least 2 characters''"
    by (simp_all add: invalid_def)
  from validation_order_first_failure [OF 1 2 3 4] 5 6
  have "status (response (handler ?e rateLimitStore ?req)) = 400
      \<and> (\<exists>m\<in>name_errors. Some ''Name must be at least 2 characters'' = Some m
           \<and> resp_body (response (handler ?e rateLimitStore ?req)) = Json (JObject [(''error'', JString m)]))"
    by metis
  then show ?thesis unfolding Let_def by blast
qed

lemma validate_stage_bad_name:
  assumes "name_out_of_bounds nm"
  shows "\<exists>m\<in>name_errors. validate_stage e nm em msg = (Inr (json_response 400 (error_body (Some m))), [])"
proof -
  from assms obtain vn where vn: "validateName nm = Inr vn" "\<not> valid vn"
    by (auto simp: name_out_of_bounds_def validateName_def opt_trim_def call_trim_def invalid_def
        split: option.splits json.splits)
  from validateName_error [OF vn] obtain m where "m \<in> name_errors" "error vn = Some m" by blast
  with vn show ?thesis by (auto simp: validate_stage_def)
qed

lemma handler_not_POST_effects:
  "req_method req \<noteq> ''POST'' \<Longrightarrow> effects (handler e st req) = []"
  by (simp add: handler_def try_block_def)

text \<open>
  Claim C4. A request whose name is missing, \<open>null\<close>, or text of trimmed length below 2 or
  above 100 never reaches the insert, whatever its method and whether or not it is rate
  limited; when it is a POST request that passes the rate limit, it is answered with status
  400 and one of the name messages.
\<close>

theorem out_of_bounds_name_rejected:
  assumes "req_json req = Inr b" and "destructure b = Inr (nm, em, msg)"
    and "name_out_of_bounds nm"
  shows "(\<forall>row. Insert row \<notin> set (effects (handler e st req)))
       \<and> (req_method req = ''POST'' \<and> \<not> fst (isRateLimited (now e) (clientIP req) st) \<longrightarrow>
            status (response (handler e st req)) = 400
          \<and> (\<exists>m\<in>name_errors.
                resp_body (response (handler e st req)) = Json (JObject [(''error'', JString m)])))"
proof -
  from validate_stage_bad_name [OF assms(3)] obtain m where m: "m \<in> name_errors"
    "validate_stage e nm em msg = (Inr (json_response 400 (error_body (Some m))), [])" by blast
  have served: "handler e st req =
      \<lparr>response = json_response 400 (error_body (Some m)),
       store = snd (isRateLimited (now e) (clientIP req) st), effects = [ReadJson]\<rparr>"
    if "req_method req = ''POST''" "\<not> fst (isRateLimited (now e) (clientIP req) st)"
    using handler_validated [OF that assms(1,2)] m(2) by simp
  have "effects (handler e st req) = [] \<or> effects (handler e st req) = [ReadJson]"
  proof (cases "req_method req = ''POST''")
    case False
    then show ?thesis by (simp add: handler_not_POST_effects)
  next
    case True
    show ?thesis
    proof (cases "fst (isRateLimited (now e) (clientIP req) st)")
      case True
      with \<open>req_method req = ''POST''\<close> show ?thesis by (simp add: handler_limited)
    next
      case False
      with True show ?thesis by (simp add: served)
    qed
  qed
  then have "\<forall>row. Insert row \<notin> set (effects (handler e st req))" by auto
  moreover have "status (response (handler e st req)) = 400
          \<and> (\<exists>m\<in>name_errors.
                resp_body (response (handler e st req)) = Json (JObject [(''error'', JString m)]))"
    if "req_method req = ''POST''" "\<not> fst (isRateLimited (now e) (clientIP req) st)"
    using served [OF that] m(1) by (auto simp: bad_request_body)
  ultimately show ?thesis by blast
qed

lemma trim_spaces: "trim ''   '' = []"
  by (simp add: trim_def isWhiteSpace_def)

theorem out_of_bounds_name_rejected_witness:
  "let e = \<lparr>now = 0, createClient_throws = None, insert_result = Inr None\<rparr>;
       req = \<lparr>req_method = ''POST'', req_headers = [],
              req_json = Inr (JObject [(''name'', JString ''   ''), (''email'', JString ''x@y.com''),
                                       (''message'', JString ''Hello there!'')])\<rparr>
   in status (response (handler e rateLimitStore req)) = 400
      \<and> (\<exists>m\<in>name_errors.
            resp_body (response (handler e rateLimitStore req)) = Json (JObject [(''error'', JString m)]))
      \<and> (\<forall>row. Insert row \<notin> set (effects (handler e rateLimitStore req)))"
proof -
  let ?e = "\<lparr>now = 0, createClient_throws = None, insert_result = Inr None\<rparr>"
  let ?b = "JObject [(''name'', JString ''   ''), (''email'', JString ''x@y.com''),
                     (''message'', JString ''Hello there!'')]"
  let ?req = "\<lparr>req_method = ''POST'', req_headers = [], req_json = Inr ?b\<rparr>"
  have 1: "req_json ?req = Inr ?b" by simp
  have 2: "destructure ?b =
      Inr (Some (JString ''   ''), Some (JString ''x@y.com''), Some (JString ''Hello there!''))"
    by (simp add: destructure_def)
  have 3: "name_out_of_bounds (Some (JString ''   ''))"
    by (simp add: name_out_of_bounds_def trim_spaces)
  have 4: "req_method ?req = ''POST'' \<and> \<not> fst (isRateLimited (now ?e) (clientIP ?req) rateLimitStore)"
    by (simp add: isRateLimited_def rateLimitStore_def)
  from out_of_bounds_name_rejected [OF 1 2 3, of ?e rateLimitStore] 4 show ?thesis
    unfolding Let_def by blast
qed

text \<open>
  Claim C5. An email that is text passes \<open>validateEmail\<close> exactly when, trimmed and
  lowercased, it is non-empty, has at most 255 characters and has the shape local part,
  \<open>@\<close>, domain, dot, final label of two or more letters; otherwise the validator gives one of
  the email messages, and a POST request that has passed the rate limit and the name check is
  answered with status 400 and that message, with no insert.
\<close>

theorem email_accepted_iff_shape:
  "(\<exists>v. validateEmail (Some (JString a)) = Inr v
        \<and> (valid v \<longleftrightarrow>
             toLowerCase (trim a) \<noteq> [] \<and> length (toLowerCase (trim a)) \<le> 255
             \<and> email_shape (toLowerCase (trim a)))
        \<and> (\<not> valid v \<longrightarrow> (\<exists>m\<in>email_errors. error v = Some m)))
   \<and> (req_method req = ''POST'' \<and> \<not> fst (isRateLimited (now e) (clientIP req) st)
        \<and> req_json req = Inr b \<and> destructure b = Inr (nm, Some (JString a), msg)
        \<and> validateName nm = Inr ok
        \<and> \<not> (toLowerCase (trim a) \<noteq> [] \<and> length (toLowerCase (trim a)) \<le> 255
             \<and> email_shape (toLowerCase (trim a))) \<longrightarrow>
          status (response (handler e st req)) = 400
        \<and> (\<exists>m\<in>email_errors.
              resp_body (response (handler e st req)) = Json (JObject [(''error'', JString m)]))
        \<and> effects (handler e st req) = [ReadJson])"
proof -
  let ?acc = "toLowerCase (trim a) \<noteq> [] \<and> length (toLowerCase (trim a)) \<le> 255
             \<and> email_shape (toLowerCase (trim a))"
  obtain v where v: "validateEmail (Some (JString a)) = Inr v"
    by (simp add: validateEmail_string)
  have iff: "valid v \<longleftrightarrow> ?acc"
    using v by (auto simp: validateEmail_string emailRegex_test ok_def invalid_def split: if_splits)
  have err: "\<exists>m\<in>email_errors. error v = Some m" if "\<not> valid v"
    using validateEmail_error [OF v that] .
  have "status (response (handler e st req)) = 400
        \<and> (\<exists>m\<in>email_errors.
              resp_body (response (handler e st req)) = Json (JObject [(''error'', JString m)]))
        \<and> effects (handler e st req) = [ReadJson]"
    if h: "req_method req = ''POST''" "\<not> fst (isRateLimited (now e) (clientIP req) st)"
      "req_json req = Inr b" "destructure b = Inr (nm, Some (JString a), msg)"
      and n: "validateName nm = Inr ok" and "\<not> ?acc"
  proof -
    from that iff have nv: "\<not> valid v" by blast
    from err [OF nv] obtain m where m: "m \<in> email_errors" "error v = Some m" by blast
    have "validate_stage e nm (Some (JString a)) msg = (Inr (json_response 400 (error_body (Some m))), [])"
      using n v nv m(2) by (simp add: validate_stage_def ok_def)
    with handler_validated [OF h] m(1) show ?thesis by (auto simp: bad_request_body)
  qed
  with v iff err show ?thesis by blast
qed

lemma not_matches_abc: "\<not> matches emailRegex ''a@b.c''"
  by code_simp

lemma lower_abc: "toLowerCase (trim ''a@b.c'') = ''a@b.c''"
  by code_simp

theorem email_accepted_iff_shape_witness:
  "let e = \<lparr>now = 0, createClient_throws = None, insert_result = Inr None\<rparr>;
       req = \<lparr>req_method = ''POST'', req_headers = [],
              req_json = Inr (JObject [(''name'', JString ''Al''), (''email'', JString ''a@b.c''),
                                       (''message'', JString ''Hello there!'')])\<rparr>
   in status (response (handler e rateLimitStore req)) = 400
      \<and> (\<exists>m\<in>email_errors.
            resp_body (response (handler e rateLimitStore req)) = Json (JObject [(''error'', JString m)]))
      \<and> effects (handler e rateLimitStore req) = [ReadJson]"
proof -
  let ?e = "\<lparr>now = 0, createClient_throws = None, insert_result = Inr None\<rparr>"
  let ?b = "JObject [(''name'', JString ''Al''), (''email'', JString ''a@b.c''),
                     (''message'', JString ''Hello there!'')]"
  let ?req = "\<lparr>req_method = ''POST'', req_headers = [], req_json = Inr ?b\<rparr>"
  have 1: "req_method ?req = ''POST'' \<and> \<not> fst (isRateLimited (now ?e) (clientIP ?req) rateLimitStore)"
    by (simp add: isRateLimited_def rateLimitStore_def)
  have 2: "req_json ?req = Inr ?b" by simp
  have 3: "destructure ?b =
      Inr (Some (JString ''Al''), Some (JString ''a@b.c''), Some (JString ''Hello there!''))"
    by (simp add: destructure_def)
  have 4: "validateName (Some (JString ''Al'')) = Inr ok"
    by (simp add: validateName_string trim_Al)
  have 5: "\<not> email_shape (toLowerCase (trim ''a@b.c''))"
    unfolding lower_abc emailRegex_test [symmetric] by (rule not_matches_abc)
  from email_accepted_iff_shape [of "''a@b.c''" ?req ?e rateLimitStore ?b "Some (JString ''Al'')" "Some (JString ''Hello there!'')"]
    1 2 3 4 5
  show ?thesis unfolding Let_def by blast
qed

lemma handler_POST_store:
  "req_method req = ''POST'' \<Longrightarrow>
     store (handler e st req) = snd (isRateLimited (now e) (clientIP req) st)"
  by (cases "isRateLimited (now e) (clientIP req) st")
     (auto simp: handler_def try_block_def split: sum.splits prod.splits bool.splits)

lemma status_json_response: "status (json_response n j) = n"
  by (simp add: json_response_def)

lemma insert_stage_status:
  "fst (insert_stage e nm em msg) = Inr r \<Longrightarrow> status r = 200 \<or> status r = 500"
  by (auto simp: insert_stage_def Let_def status_json_response split: option.splits sum.splits)

lemma validate_stage_status:
  "fst (validate_stage e nm em msg) = Inr r \<Longrightarrow> status r = 200 \<or> status r = 400 \<or> status r = 500"
  by (auto simp: validate_stage_def status_json_response
      dest: insert_stage_status split: sum.splits if_splits)

lemma handler_POST_429_iff:
  assumes "req_method req = ''POST''"
  shows "status (response (handler e st req)) = 429 \<longleftrightarrow> fst (isRateLimited (now e) (clientIP req) st)"
proof (cases "fst (isRateLimited (now e) (clientIP req) st)")
  case True
  then show ?thesis
    by (simp add: handler_limited [OF assms] too_many_def status_json_response)
next
  case False
  then obtain st' where st': "isRateLimited (now e) (clientIP req) st = (False, st')"
    by (cases "isRateLimited (now e) (clientIP req) st") auto
  have "status (response (handler e st req)) \<noteq> 429"
  proof (cases "req_json req")
    case (Inl x)
    with assms st' show ?thesis
      by (simp add: handler_def try_block_def status_json_response)
  next
    case (Inr b)
    show ?thesis
    proof (cases "destructure b")
      case (Inl x)
      with Inr assms st' show ?thesis
        by (simp add: handler_def try_block_def status_json_response)
    next
      case (Inr t)
      obtain nm em msg where t: "t = (nm, em, msg)" by (cases t)
      show ?thesis
        using handler_validated [OF assms False \<open>req_json req = Inr b\<close> Inr [unfolded t]]
          validate_stage_status [of e nm em msg]
        by (cases "fst (validate_stage e nm em msg)")
           (auto simp: unexpected_def status_json_response)
    qed
  qed
  with False show ?thesis by simp
qed

text \<open>
  Claim C6. For a POST request from an address that has a record: when the current time is
  strictly after \<open>windowStart\<close> plus one hour, the request is not rate limited and the record
  becomes count 1 with \<open>windowStart\<close> the current time; at or before that instant the old
  window stays, the request is rate limited exactly when the count has reached 5, and
  otherwise the count of the old record goes up by one.
\<close>

theorem window_resets_after_elapse:
  assumes "req_method req = ''POST''" and "clientIP req = ip" and "st ip = Some r"
  shows "(now e > windowStart r + RATE_LIMIT_WINDOW_MS \<longrightarrow>
            status (response (handler e st req)) \<noteq> 429
          \<and> store (handler e st req) = st(ip \<mapsto> \<lparr>count = 1, windowStart = now e\<rparr>))
       \<and> (now e \<le> windowStart r + RATE_LIMIT_WINDOW_MS \<longrightarrow>
            (status (response (handler e st req)) = 429 \<longleftrightarrow> count r \<ge> 5)
          \<and> store (handler e st req) =
              (if count r \<ge> 5 then st else st(ip \<mapsto> r\<lparr>count := count r + 1\<rparr>)))"
  using assms(2,3)
  by (auto simp: handler_POST_store [OF assms(1)] handler_POST_429_iff [OF assms(1)]
      isRateLimited_def MAX_SUBMISSIONS_PER_WINDOW_def)

lemma clientIP_no_headers:
  "map_of (req_headers req) ''x-forwarded-for'' = None \<Longrightarrow>
   map_of (req_headers req) ''cf-connecting-ip'' = None \<Longrightarrow> clientIP req = ''unknown''"
  by (simp add: clientIP_def)

theorem window_resets_after_elapse_witness:
  "let st = rateLimitStore(''unknown'' \<mapsto> \<lparr>count = 3, windowStart = 0\<rparr>);
       req = \<lparr>req_method = ''POST'', req_headers = [], req_json = Inl SyntaxError\<rparr>
   in store (handler \<lparr>now = 3600001, createClient_throws = None, insert_result = Inr None\<rparr> st req) =
        st(''unknown'' \<mapsto> \<lparr>count = 1, windowStart = 3600001\<rparr>)
      \<and> store (handler \<lparr>now = 3600000, createClient_throws = None, insert_result = Inr None\<rparr> st req) =
        st(''unknown'' \<mapsto> \<lparr>count = 4, windowStart = 0\<rparr>)"
proof -
  let ?st = "rateLimitStore(''unknown'' \<mapsto> \<lparr>count = 3, windowStart = 0\<rparr>)"
  let ?req = "\<lparr>req_method = ''POST'', req_headers = [], req_json = Inl SyntaxError\<rparr>"
  let ?late = "\<lparr>now = 3600001, createClient_throws = None, insert_result = Inr None\<rparr>"
  let ?edge = "\<lparr>now = 3600000, createClient_throws = None, insert_result = Inr None\<rparr>"
  have 1: "req_method ?req = ''POST''" by simp
  have 2: "clientIP ?req = ''unknown''" by (simp add: clientIP_no_headers)
  have 3: "?st ''unknown'' = Some \<lparr>count = 3, windowStart = 0\<rparr>" by simp
  have 4: "now ?late > windowStart \<lparr>count = 3, windowStart = 0\<rparr> + RATE_LIMIT_WINDOW_MS"
    by (simp add: RATE_LIMIT_WINDOW_MS_def)
  have 5: "now ?edge \<le> windowStart \<lparr>count = 3, windowStart = 0\<rparr> + RATE_LIMIT_WINDOW_MS"
    by (simp add: RATE_LIMIT_WINDOW_MS_def)
  from window_resets_after_elapse [where st = ?st and ip = "''unknown''" and e = ?late, OF 1 2 3] 4
  have a: "store (handler ?late ?st ?req) = ?st(''unknown'' \<mapsto> \<lparr>count = 1, windowStart = 3600001\<rparr>)"
    by simp
  from window_resets_after_elapse [where st = ?st and ip = "''unknown''" and e = ?edge, OF 1 2 3] 5
  have b: "store (handler ?edge ?st ?req) = ?st(''unknown'' \<mapsto> \<lparr>count = 4, windowStart = 0\<rparr>)"
    by simp
  from a b show ?thesis unfolding Let_def by blast
qed

text \<open>
  Claim C7 as stated asks for a 400-class response with a field-specific message. A POST request
  whose body is not JSON falls into the catch-all instead: status 500, generic message.
\<close>

theorem unparsable_body_not_client_error:
  "status (response (handler \<lparr>now = 0, createClient_throws = None, insert_result = Inr None\<rparr>
      rateLimitStore \<lparr>req_method = ''POST'', req_headers = [], req_json = Inl SyntaxError\<rparr>)) = 500
   \<and> resp_body (response (handler \<lparr>now = 0, createClient_throws = None, insert_result = Inr None\<rparr>
      rateLimitStore \<lparr>req_method = ''POST'', req_headers = [], req_json = Inl SyntaxError\<rparr>)) =
     Json (JObject [(''error'', JString ''An unexpected error occurred. Please try again.'')])"
  by (simp add: handler_def try_block_def isRateLimited_def rateLimitStore_def json_response_def
      error_body_def)

text \<open>
  Claim C7, as amended. A POST request that passes the rate limit and whose body cannot be
  parsed is answered with status 500 and the generic message of the catch-all; the body was
  read, nothing was validated and nothing inserted.
\<close>

theorem unparsable_body_is_unexpected_error:
  assumes "req_method req = ''POST''"
    and "\<not> fst (isRateLimited (now e) (clientIP req) st)"
    and "req_json req = Inl x"
  shows "status (response (handler e st req)) = 500
       \<and> resp_body (response (handler e st req)) =
           Json (JObject [(''error'', JString ''An unexpected error occurred. Please try again.'')])
       \<and> effects (handler e st req) = [ReadJson]"
proof -
  obtain st' where "isRateLimited (now e) (clientIP req) st = (False, st')"
    using assms(2) by (cases "isRateLimited (now e) (clientIP req) st") auto
  with assms(1,3) show ?thesis
    by (simp add: handler_def try_block_def json_response_def error_body_def)
qed

theorem unparsable_body_is_unexpected_error_witness:
  "effects (handler \<lparr>now = 0, createClient_throws = None, insert_result = Inr None\<rparr>
      rateLimitStore \<lparr>req_method = ''POST'', req_headers = [], req_json = Inl SyntaxError\<rparr>) = [ReadJson]"
proof -
  let ?e = "\<lparr>now = 0, createClient_throws = None, insert_result = Inr None\<rparr>"
  let ?req = "\<lparr>req_method = ''POST'', req_headers = [], req_json = Inl SyntaxError\<rparr>"
  have 1: "req_method ?req = ''POST''" by simp
  have 2: "\<not> fst (isRateLimited (now ?e) (clientIP ?req) rateLimitStore)"
    by (simp add: isRateLimited_def rateLimitStore_def)
  have 3: "req_json ?req = Inl SyntaxError" by simp
  from unparsable_body_is_unexpected_error [OF 1 2 3] show ?thesis by blast
qed

lemma structured_error:
  "n \<in> {400, 405, 429, 500} \<Longrightarrow> structured (json_response n (error_body (Some m)))"
  by (auto simp: structured_def json_response_def error_body_def)

lemma structured_success: "structured (json_response 200 success_body)"
  by (simp add: structured_def json_response_def success_body_def)

lemma insert_stage_structured:
  "fst (insert_stage e nm em msg) = Inr r \<Longrightarrow> \<exists>n j. r = json_response n j \<and> structured r"
  by (auto simp: insert_stage_def Let_def structured_error structured_success
      split: option.splits sum.splits)

lemma validate_stage_structured:
  assumes "fst (validate_stage e nm em msg) = Inr r"
  shows "\<exists>n j. r = json_response n j \<and> structured r"
proof -
  have bad: "\<exists>n j. json_response 400 (error_body (error v)) = json_response n j
      \<and> structured (json_response 400 (error_body (error v)))"
    if "\<exists>m. error v = Some m" for v
    using that by (auto simp: structured_error)
  show ?thesis
    using assms validateName_error [of nm] validateEmail_error [of em] validateMessage_error [of msg]
      insert_stage_structured [of e nm em msg r]
    by (auto simp: validate_stage_def structured_error split: sum.splits if_splits)
qed

lemma handler_structured:
  assumes "req_method req \<noteq> ''OPTIONS''"
  shows "\<exists>n j. response (handler e st req) = json_response n j \<and> structured (response (handler e st req))"
proof (cases "req_method req = ''POST''")
  case False
  with assms show ?thesis
    by (auto simp: handler_def try_block_def structured_error)
next
  case POST: True
  show ?thesis
  proof (cases "fst (isRateLimited (now e) (clientIP req) st)")
    case True
    then show ?thesis
      by (auto simp: handler_limited [OF POST] too_many_def structured_error)
  next
    case False
    then obtain st' where st': "isRateLimited (now e) (clientIP req) st = (False, st')"
      by (cases "isRateLimited (now e) (clientIP req) st") auto
    have u: "\<exists>n j. unexpected = json_response n j \<and> structured unexpected"
      by (auto simp: unexpected_def structured_error)
    show ?thesis
    proof (cases "req_json req")
      case (Inl x)
      with assms POST st' u show ?thesis
        by (simp add: handler_def try_block_def unexpected_def)
    next
      case (Inr b)
      show ?thesis
      proof (cases "destructure b")
        case (Inl x)
        with Inr assms POST st' u show ?thesis
          by (simp add: handler_def try_block_def unexpected_def)
      next
        case (Inr t)
        obtain nm em msg where t: "t = (nm, em, msg)" by (cases t)
        show ?thesis
          using handler_validated [OF POST False \<open>req_json req = Inr b\<close> Inr [unfolded t]]
            validate_stage_structured [of e nm em msg] u
          by (cases "fst (validate_stage e nm em msg)") auto
      qed
    qed
  qed
qed

text \<open>
  Claim C8 as stated covers every method. The preflight is answered with the plain text
  \<open>ok\<close>, which is neither of the two JSON shapes.
\<close>

theorem preflight_body_not_structured:
  "resp_body (response (handler \<lparr>now = 0, createClient_throws = None, insert_result = Inr None\<rparr>
      rateLimitStore \<lparr>req_method = ''OPTIONS'', req_headers = [], req_json = Inl SyntaxError\<rparr>)) = Text ''ok''
   \<and> \<not> structured (response (handler \<lparr>now = 0, createClient_throws = None, insert_result = Inr None\<rparr>
      rateLimitStore \<lparr>req_method = ''OPTIONS'', req_headers = [], req_json = Inl SyntaxError\<rparr>))"
  by (simp add: handler_def structured_def)

text \<open>
  Claim C8, as amended. Every request gets one response that carries the cross-origin headers.
  The preflight (\<open>OPTIONS\<close>) is answered with status 200 and the plain text \<open>ok\<close>; every other
  request, whatever its method, its body, the result of the insert or an exception on the
  way, gets a JSON body that is \<open>{error}\<close> with status 400, 405, 429 or 500 or
  \<open>{success: true, message}\<close> with status 200, under the cross-origin headers and the JSON
  content type.
\<close>

theorem every_response_has_cors_and_shape:
  "set corsHeaders \<subseteq> set (resp_headers (response (handler e st req)))
   \<and> (req_method req = ''OPTIONS'' \<longrightarrow>
        response (handler e st req) = \<lparr>status = 200, resp_headers = corsHeaders, resp_body = Text ''ok''\<rparr>)
   \<and> (req_method req \<noteq> ''OPTIONS'' \<longrightarrow>
        structured (response (handler e st req))
      \<and> resp_headers (response (handler e st req)) =
          corsHeaders @ [(''Content-Type'', ''application/json'')])"
proof (cases "req_method req = ''OPTIONS''")
  case True
  then show ?thesis by (simp add: handler_def)
next
  case False
  from handler_structured [OF False, of e st] obtain n j
    where "response (handler e st req) = json_response n j" "structured (response (handler e st req))"
    by blast
  with False show ?thesis by (auto simp: json_response_def)
qed

theorem every_response_has_cors_and_shape_witness:
  "structured (response (handler
      \<lparr>now = 0, createClient_throws = None, insert_result = Inr (Some ''connection refused'')\<rparr>
      rateLimitStore
      \<lparr>req_method = ''POST'', req_headers = [],
       req_json = Inr (JObject [(''name'', JString ''Al''), (''email'', JString ''A@B.COM''),
                                (''message'', JString ''Hello there!'')])\<rparr>))
   \<and> response (handler \<lparr>now = 0, createClient_throws = None, insert_result = Inr None\<rparr>
      rateLimitStore \<lparr>req_method = ''OPTIONS'', req_headers = [], req_json = Inl SyntaxError\<rparr>) =
     \<lparr>status = 200, resp_headers = corsHeaders, resp_body = Text ''ok''\<rparr>"
proof -
  let ?e = "\<lparr>now = 0, createClient_throws = None, insert_result = Inr (Some ''connection refused'')\<rparr>"
  let ?req = "\<lparr>req_method = ''POST'', req_headers = [],
       req_json = Inr (JObject [(''name'', JString ''Al''), (''email'', JString ''A@B.COM''),
                                (''message'', JString ''Hello there!'')])\<rparr>"
  let ?e' = "\<lparr>now = 0, createClient_throws = None, insert_result = Inr None\<rparr>"
  let ?opt = "\<lparr>req_method = ''OPTIONS'', req_headers = [], req_json = Inl SyntaxError\<rparr>"
  have 1: "req_method ?req \<noteq> ''OPTIONS''" by simp
  have 2: "req_method ?opt = ''OPTIONS''" by simp
  from every_response_has_cors_and_shape [of ?e rateLimitStore ?req] 1
    every_response_has_cors_and_shape [of ?e' rateLimitStore ?opt] 2
  show ?thesis by blast
qed

section \<open>Runs of requests within one window\<close>

lemma isRateLimited_in_window:
  assumes "st a = Some r" and "t - windowStart r \<le> RATE_LIMIT_WINDOW_MS"
  shows "isRateLimited t a st =
     (5 \<le> count r, if 5 \<le> count r then st else st(a \<mapsto> r\<lparr>count := count r + 1\<rparr>))"
  using assms by (simp add: isRateLimited_def MAX_SUBMISSIONS_PER_WINDOW_def)

lemma isRateLimited_first:
  "\<exists>r. snd (isRateLimited t a st) a = Some r \<and> 1 \<le> count r"
  by (auto simp: isRateLimited_def MAX_SUBMISSIONS_PER_WINDOW_def split: option.splits)

lemma isRateLimited_other:
  "b \<noteq> a \<Longrightarrow> snd (isRateLimited t b st) a = st a"
  by (auto simp: isRateLimited_def split: option.splits)

lemma in_window_Some:
  "st a = Some r \<Longrightarrow> in_window st a t \<longleftrightarrow> t - windowStart r \<le> RATE_LIMIT_WINDOW_MS"
  by (auto simp: in_window_def)

lemma handler_not_POST_store:
  "req_method req \<noteq> ''POST'' \<Longrightarrow> store (handler e st req) = st"
  by (simp add: handler_def try_block_def)

lemma other_request_keeps_record:
  assumes "\<not> post_from a req"
  shows "store (handler e st req) a = st a"
proof (cases "req_method req = ''POST''")
  case False
  then show ?thesis by (simp add: handler_not_POST_store)
next
  case True
  with assms have "clientIP req \<noteq> a" by (simp add: post_from_def)
  then show ?thesis by (simp add: handler_POST_store [OF True] isRateLimited_other)
qed

lemma post_in_window_step:
  assumes "post_from a req" and "st a = Some r"
    and "now e - windowStart r \<le> RATE_LIMIT_WINDOW_MS"
  shows "store (handler e st req) a =
           Some (if 5 \<le> count r then r else r\<lparr>count := count r + 1\<rparr>)"
    and "status (response (handler e st req)) = 429 \<longleftrightarrow> 5 \<le> count r"
proof -
  from assms(1) have post: "req_method req = ''POST''" and ip: "clientIP req = a"
    by (simp_all add: post_from_def)
  have lim: "isRateLimited (now e) a st =
     (5 \<le> count r, if 5 \<le> count r then st else st(a \<mapsto> r\<lparr>count := count r + 1\<rparr>))"
    using assms(2,3) by (rule isRateLimited_in_window)
  show "store (handler e st req) a =
           Some (if 5 \<le> count r then r else r\<lparr>count := count r + 1\<rparr>)"
    using lim assms(2) by (simp add: handler_POST_store [OF post] ip)
  show "status (response (handler e st req)) = 429 \<longleftrightarrow> 5 \<le> count r"
    using lim by (simp add: handler_POST_429_iff [OF post] ip)
qed

lemma store_after_in_window:
  assumes "\<forall>x\<in>set xs. post_from a (snd x) \<longrightarrow> now (fst x) - w \<le> RATE_LIMIT_WINDOW_MS"
    and "st a = Some r" and "windowStart r = w"
  shows "\<exists>r'. store_after st xs a = Some r' \<and> windowStart r' = w
            \<and> min 5 (count r + length (filter (\<lambda>x. post_from a (snd x)) xs)) \<le> count r'"
  using assms
proof (induction xs arbitrary: st r)
  case Nil
  then show ?case by simp
next
  case (Cons x xs)
  obtain e req where x: "x = (e, req)" by (cases x)
  let ?st = "store (handler e st req)"
  from Cons.prems(1) have rest:
    "\<forall>x\<in>set xs. post_from a (snd x) \<longrightarrow> now (fst x) - w \<le> RATE_LIMIT_WINDOW_MS" by simp
  show ?case
  proof (cases "post_from a req")
    case False
    then have "?st a = Some r"
      using Cons.prems(2) by (simp add: other_request_keeps_record)
    from Cons.IH [where st = "?st", OF rest this Cons.prems(3)] False x show ?thesis by simp
  next
    case True
    with Cons.prems(1,3) x have "now e - windowStart r \<le> RATE_LIMIT_WINDOW_MS" by simp
    from post_in_window_step(1) [where st = st and a = a, OF True Cons.prems(2) this]
    obtain r1 where r1: "?st a = Some r1" "windowStart r1 = w" "min 5 (count r + 1) \<le> count r1"
      using Cons.prems(3) by (cases "5 \<le> count r") auto
    from Cons.IH [where st = "?st", OF rest r1(1,2)] obtain r' where
      "store_after ?st xs a = Some r'" "windowStart r' = w"
      "min 5 (count r1 + length (filter (\<lambda>x. post_from a (snd x)) xs)) \<le> count r'"
      by blast
    with r1(3) True x show ?thesis by auto
  qed
qed

lemma accepted_Cons:
  "accepted P st ((e, req) # xs) =
     (if P req \<and> status (response (handler e st req)) \<noteq> 429 then 1 else 0)
     + accepted P (store (handler e st req)) xs"
  by (simp add: accepted_def)

lemma accepted_in_window:
  assumes "\<forall>x\<in>set xs. post_from a (snd x) \<longrightarrow> now (fst x) - w \<le> RATE_LIMIT_WINDOW_MS"
    and "st a = Some r" and "windowStart r = w"
  shows "accepted (post_from a) st xs \<le> 5 - count r"
  using assms
proof (induction xs arbitrary: st r)
  case Nil
  then show ?case by (simp add: accepted_def)
next
  case (Cons x xs)
  obtain e req where x: "x = (e, req)" by (cases x)
  let ?st = "store (handler e st req)"
  from Cons.prems(1) have rest:
    "\<forall>x\<in>set xs. post_from a (snd x) \<longrightarrow> now (fst x) - w \<le> RATE_LIMIT_WINDOW_MS" by simp
  show ?case
  proof (cases "post_from a req")
    case False
    then have "?st a = Some r"
      using Cons.prems(2) by (simp add: other_request_keeps_record)
    from Cons.IH [where st = "?st", OF rest this Cons.prems(3)] False x show ?thesis
      by (simp add: accepted_Cons)
  next
    case True
    with Cons.prems(1,3) x have t: "now e - windowStart r \<le> RATE_LIMIT_WINDOW_MS" by simp
    note step = post_in_window_step [where st = st and a = a, OF True Cons.prems(2) t]
    show ?thesis
    proof (cases "5 \<le> count r")
      case full: True
      with step(1) have "?st a = Some r" by simp
      from Cons.IH [where st = "?st", OF rest this Cons.prems(3)] full step(2) x show ?thesis
        by (simp add: accepted_Cons)
    next
      case room: False
      with step(1) have "?st a = Some (r\<lparr>count := count r + 1\<rparr>)" by simp
      from Cons.IH [where st = "?st", OF rest this] Cons.prems(3) room step(2) x True
      show ?thesis by (simp add: accepted_Cons)
    qed
  qed
qed

lemma first_request_record:
  assumes "req_method req = ''POST''" and "clientIP req = a"
  shows "\<exists>r. store (handler e st req) a = Some r \<and> 1 \<le> count r"
  using isRateLimited_first [of "now e" a st] assms
  by (simp add: handler_POST_store)

lemma further_is_limited:
  assumes first: "post_from a (snd x1)" and further: "post_from a req"
    and five: "4 \<le> length (filter (\<lambda>x. post_from a (snd x)) xs)"
    and win: "\<forall>x\<in>set (xs @ [(e, req)]). post_from a (snd x) \<longrightarrow>
                in_window (store (handler (fst x1) st (snd x1))) a (now (fst x))"
  shows "handler e (store_after st (x1 # xs)) req =
           \<lparr>response = too_many, store = store_after st (x1 # xs), effects = []\<rparr>"
proof -
  obtain e1 req1 where x1: "x1 = (e1, req1)" by (cases x1)
  let ?st1 = "store (handler e1 st req1)"
  from first x1 have "req_method req1 = ''POST''" "clientIP req1 = a"
    by (simp_all add: post_from_def)
  from first_request_record [OF this] obtain r1 where r1: "?st1 a = Some r1" "1 \<le> count r1"
    by blast
  from win x1 have w: "\<forall>x\<in>set (xs @ [(e, req)]). post_from a (snd x) \<longrightarrow>
      now (fst x) - windowStart r1 \<le> RATE_LIMIT_WINDOW_MS"
    by (simp add: in_window_Some [where st = "?st1" and a = a, OF r1(1)])
  then have "\<forall>x\<in>set xs. post_from a (snd x) \<longrightarrow>
      now (fst x) - windowStart r1 \<le> RATE_LIMIT_WINDOW_MS" by simp
  from store_after_in_window [where st = "?st1" and a = a, OF this r1(1) refl] obtain r' where
    r': "store_after ?st1 xs a = Some r'" "windowStart r' = windowStart r1"
      "min 5 (count r1 + length (filter (\<lambda>x. post_from a (snd x)) xs)) \<le> count r'" by blast
  from r'(3) r1(2) five have "5 \<le> count r'" by simp
  moreover from w further r'(2) have "now e - windowStart r' \<le> RATE_LIMIT_WINDOW_MS" by simp
  ultimately have "fst (isRateLimited (now e) a (store_after ?st1 xs))"
    using isRateLimited_in_window [where st = "store_after ?st1 xs" and a = a, OF r'(1)] by simp
  moreover from further have "req_method req = ''POST''" "clientIP req = a"
    by (simp_all add: post_from_def)
  ultimately show ?thesis
    using handler_limited [of req e "store_after ?st1 xs"] x1 by simp
qed

lemma sixth_is_limited:
  assumes posts: "\<forall>x\<in>set (x1 # xs @ [(e, req)]). req_method (snd x) = ''POST'' \<and> clientIP (snd x) = a"
    and len: "4 \<le> length xs"
    and win: "\<forall>x\<in>set (xs @ [(e, req)]). in_window (store (handler (fst x1) st (snd x1))) a (now (fst x))"
  shows "handler e (store_after st (x1 # xs)) req =
           \<lparr>response = too_many, store = store_after st (x1 # xs), effects = []\<rparr>"
proof -
  from posts have all: "\<forall>x\<in>set xs. post_from a (snd x)" and "post_from a (snd x1)" "post_from a req"
    by (simp_all add: post_from_def)
  moreover from all have "filter (\<lambda>x. post_from a (snd x)) xs = xs" by simp
  with len have "4 \<le> length (filter (\<lambda>x. post_from a (snd x)) xs)" by simp
  moreover from win have "\<forall>x\<in>set (xs @ [(e, req)]). post_from a (snd x) \<longrightarrow>
                in_window (store (handler (fst x1) st (snd x1))) a (now (fst x))" by simp
  ultimately show ?thesis by (intro further_is_limited)
qed

lemma at_most_five_accepted:
  assumes first: "post_from a (snd x1)"
    and win: "\<forall>x\<in>set xs. post_from a (snd x) \<longrightarrow>
                in_window (store (handler (fst x1) st (snd x1))) a (now (fst x))"
  shows "accepted (post_from a) st (x1 # xs) \<le> 5"
proof -
  obtain e1 req1 where x1: "x1 = (e1, req1)" by (cases x1)
  let ?st1 = "store (handler e1 st req1)"
  from first x1 have "req_method req1 = ''POST''" "clientIP req1 = a"
    by (simp_all add: post_from_def)
  from first_request_record [OF this] obtain r1 where r1: "?st1 a = Some r1" "1 \<le> count r1"
    by blast
  from win x1 have "\<forall>x\<in>set xs. post_from a (snd x) \<longrightarrow>
      now (fst x) - windowStart r1 \<le> RATE_LIMIT_WINDOW_MS"
    by (simp add: in_window_Some [where st = "?st1" and a = a, OF r1(1)])
  from accepted_in_window [where st = "?st1" and a = a, OF this r1(1) refl] r1(2)
  have "accepted (post_from a) ?st1 xs \<le> 4" by simp
  with x1 show ?thesis by (simp add: accepted_Cons)
qed

lemma accepted_mono:
  assumes "\<And>rq. P rq \<Longrightarrow> Q rq"
  shows "accepted P st xs \<le> accepted Q st xs"
proof (induction xs arbitrary: st)
  case Nil
  show ?case by (simp add: accepted_def)
next
  case (Cons x xs)
  obtain e req where x: "x = (e, req)" by (cases x)
  from Cons [of "store (handler e st req)"] assms [of req] x show ?case
    by (auto simp: accepted_Cons)
qed

lemma too_many_fields:
  "status too_many = 429"
  "resp_body too_many = Json (JObject [(''error'', JString ''Too many submissions. Please try again later.'')])"
  by (simp_all add: too_many_def json_response_def error_body_def)

text \<open>
  Claim C2. Let the instance serve any run of requests, of any method and from any address,
  whatever it served before (the store at the start is arbitrary). Take a POST request from one
  source address, then any requests among which at least four more are POST requests from
  that address, then a further POST request from it, the sixth or a later one, where every
  POST request from the address after the first arrives while the window that the first
  opened or continued is still running. The further request is answered with status 429 and
  the "too many" message and nothing else happens: the body is not read, nothing is
  validated or inserted and the store is left as it was. Of the POST requests from that
  address in the whole run at most five are not answered 429; what other addresses, other
  methods and preflights do in between does not change that.
\<close>

theorem sixth_submission_in_window_rejected:
  assumes "post_from a (snd x1)" and "post_from a req"
    and "4 \<le> length (filter (\<lambda>x. post_from a (snd x)) xs)"
    and "\<forall>x\<in>set (xs @ [(e, req)]). post_from a (snd x) \<longrightarrow>
           in_window (store (handler (fst x1) st (snd x1))) a (now (fst x))"
  shows "status (response (handler e (store_after st (x1 # xs)) req)) = 429
       \<and> resp_body (response (handler e (store_after st (x1 # xs)) req)) =
           Json (JObject [(''error'', JString ''Too many submissions. Please try again later.'')])
       \<and> effects (handler e (store_after st (x1 # xs)) req) = []
       \<and> store (handler e (store_after st (x1 # xs)) req) = store_after st (x1 # xs)
       \<and> accepted (post_from a) st (x1 # xs @ [(e, req)]) \<le> 5"
proof -
  have "handler e (store_after st (x1 # xs)) req =
           \<lparr>response = too_many, store = store_after st (x1 # xs), effects = []\<rparr>"
    using assms by (rule further_is_limited)
  moreover have "accepted (post_from a) st (x1 # xs @ [(e, req)]) \<le> 5"
    using assms(1,4) by (rule at_most_five_accepted)
  ultimately show ?thesis by (simp add: too_many_fields)
qed

lemma clientIP_forwarded:
  "clientIP \<lparr>req_method = m, req_headers = [(''x-forwarded-for'', ''203.0.113.7, 10.0.0.1'')],
     req_json = j\<rparr> = ''203.0.113.7''"
  by (simp add: clientIP_def split_first_def trim_def isWhiteSpace_def)

lemma clientIP_connecting:
  "clientIP \<lparr>req_method = m, req_headers = [(''cf-connecting-ip'', ''198.51.100.9'')],
     req_json = j\<rparr> = ''198.51.100.9''"
  by (simp add: clientIP_def)

theorem sixth_submission_in_window_rejected_witness:
  "let body = Inr (JObject [(''name'', JString ''Al''), (''email'', JString ''A@B.COM''),
                            (''message'', JString ''Hello there!'')]);
       fwd = [(''x-forwarded-for'', ''203.0.113.7, 10.0.0.1'')];
       post = \<lparr>req_method = ''POST'', req_headers = fwd, req_json = body\<rparr>;
       preflight = \<lparr>req_method = ''OPTIONS'', req_headers = fwd, req_json = Inl SyntaxError\<rparr>;
       get = \<lparr>req_method = ''GET'', req_headers = fwd, req_json = Inl SyntaxError\<rparr>;
       other = \<lparr>req_method = ''POST'', req_headers = [(''cf-connecting-ip'', ''198.51.100.9'')],
                req_json = body\<rparr>;
       run = [(\<lparr>now = 0, createClient_throws = None, insert_result = Inr None\<rparr>, post),
              (\<lparr>now = 500, createClient_throws = None, insert_result = Inr None\<rparr>, preflight),
              (\<lparr>now = 1000, createClient_throws = None, insert_result = Inr None\<rparr>, post),
              (\<lparr>now = 1500, createClient_throws = None, insert_result = Inr None\<rparr>, other),
              (\<lparr>now = 2000, createClient_throws = None, insert_result = Inr None\<rparr>, post),
              (\<lparr>now = 2500, createClient_throws = None, insert_result = Inr None\<rparr>, get),
              (\<lparr>now = 3000, createClient_throws = None, insert_result = Inr None\<rparr>, post),
              (\<lparr>now = 4000, createClient_throws = None, insert_result = Inr None\<rparr>, post)];
       sixth = \<lparr>now = 3600000, createClient_throws = None, insert_result = Inr None\<rparr>
   in status (response (handler sixth (store_after rateLimitStore run) post)) = 429
      \<and> effects (handler sixth (store_after rateLimitStore run) post) = []
      \<and> accepted (post_from ''203.0.113.7'') rateLimitStore (run @ [(sixth, post)]) \<le> 5"
proof -
  let ?body = "Inr (JObject [(''name'', JString ''Al''), (''email'', JString ''A@B.COM''),
                            (''message'', JString ''Hello there!'')])"
  let ?fwd = "[(''x-forwarded-for'', ''203.0.113.7, 10.0.0.1'')]"
  let ?post = "\<lparr>req_method = ''POST'', req_headers = ?fwd, req_json = ?body\<rparr>"
  let ?preflight = "\<lparr>req_method = ''OPTIONS'', req_headers = ?fwd, req_json = Inl SyntaxError\<rparr>"
  let ?get = "\<lparr>req_method = ''GET'', req_headers = ?fwd, req_json = Inl SyntaxError\<rparr>"
  let ?other = "\<lparr>req_method = ''POST'', req_headers = [(''cf-connecting-ip'', ''198.51.100.9'')],
                req_json = ?body\<rparr>"
  let ?x1 = "(\<lparr>now = 0, createClient_throws = None, insert_result = Inr None\<rparr>, ?post)"
  let ?xs = "[(\<lparr>now = 500, createClient_throws = None, insert_result = Inr None\<rparr>, ?preflight),
              (\<lparr>now = 1000, createClient_throws = None, insert_result = Inr None\<rparr>, ?post),
              (\<lparr>now = 1500, createClient_throws = None, insert_result = Inr None\<rparr>, ?other),
              (\<lparr>now = 2000, createClient_throws = None, insert_result = Inr None\<rparr>, ?post),
              (\<lparr>now = 2500, createClient_throws = None, insert_result = Inr None\<rparr>, ?get),
              (\<lparr>now = 3000, createClient_throws = None, insert_result = Inr None\<rparr>, ?post),
              (\<lparr>now = 4000, createClient_throws = None, insert_result = Inr None\<rparr>, ?post)]"
  let ?e = "\<lparr>now = 3600000, createClient_throws = None, insert_result = Inr None\<rparr>"
  have p: "post_from ''203.0.113.7'' ?post" "\<not> post_from ''203.0.113.7'' ?preflight"
    "\<not> post_from ''203.0.113.7'' ?get" "\<not> post_from ''203.0.113.7'' ?other"
    by (simp_all add: post_from_def clientIP_forwarded clientIP_connecting)
  have 1: "post_from ''203.0.113.7'' (snd ?x1)" by (simp add: p)
  have 2: "4 \<le> length (filter (\<lambda>x. post_from ''203.0.113.7'' (snd x)) ?xs)"
    by (simp add: p)
  have 3: "\<forall>x\<in>set (?xs @ [(?e, ?post)]). post_from ''203.0.113.7'' (snd x) \<longrightarrow>
      in_window (store (handler (fst ?x1) rateLimitStore (snd ?x1))) ''203.0.113.7'' (now (fst x))"
    by (simp add: p handler_POST_store clientIP_forwarded isRateLimited_def rateLimitStore_def
        in_window_def RATE_LIMIT_WINDOW_MS_def)
  from sixth_submission_in_window_rejected [OF 1 p(1) 2 3] show ?thesis unfolding Let_def by simp
qed

lemma count_exact_in_window:
  assumes "\<forall>x\<in>set xs. req_method (snd x) = ''POST'' \<and> clientIP (snd x) = a
             \<and> now (fst x) - w \<le> RATE_LIMIT_WINDOW_MS"
    and "st a = Some r" and "windowStart r = w"
    and "\<forall>out\<in>set (serve_all st xs). status (response out) \<noteq> 429"
  shows "\<exists>r'. store_after st xs a = Some r' \<and> count r' = count r + length xs
            \<and> (xs = [] \<or> count r' \<le> 5)"
  using assms
proof (induction xs arbitrary: st r)
  case Nil
  then show ?case by simp
next
  case (Cons x xs)
  obtain e req where x: "x = (e, req)" by (cases x)
  from Cons.prems(1) x have post: "req_method req = ''POST''" and ip: "clientIP req = a"
    and t: "now e - w \<le> RATE_LIMIT_WINDOW_MS" by auto
  let ?st = "store (handler e st req)"
  have lim: "isRateLimited (now e) a st =
     (5 \<le> count r, if 5 \<le> count r then st else st(a \<mapsto> r\<lparr>count := count r + 1\<rparr>))"
    using isRateLimited_in_window [where st = st and a = a and t = "now e", OF Cons.prems(2)] t
      Cons.prems(3) by simp
  from Cons.prems(4) x have "status (response (handler e st req)) \<noteq> 429" by simp
  with lim have less: "count r < 5"
    by (simp add: handler_POST_429_iff [OF post] ip)
  with lim have st': "?st a = Some (r\<lparr>count := count r + 1\<rparr>)"
    by (simp add: handler_POST_store [OF post] ip)
  from Cons.prems(1) have rest: "\<forall>x\<in>set xs. req_method (snd x) = ''POST'' \<and> clientIP (snd x) = a
             \<and> now (fst x) - w \<le> RATE_LIMIT_WINDOW_MS" by simp
  from Cons.prems(4) x have ok: "\<forall>out\<in>set (serve_all ?st xs). status (response out) \<noteq> 429"
    by simp
  from Cons.IH [where st = "?st", OF rest st' _ ok] Cons.prems(3)
  obtain r' where "store_after ?st xs a = Some r'" "count r' = count r + 1 + length xs"
    "xs = [] \<or> count r' \<le> 5" by auto
  with less x show ?case by auto
qed

lemma consumes_one_unit:
  assumes "req_method rq = ''POST''" and "\<not> fst (isRateLimited (now en) (clientIP rq) s)"
  shows "\<exists>r'. store (handler en s rq) (clientIP rq) = Some r'
          \<and> count r' = (case s (clientIP rq) of None \<Rightarrow> 1
               | Some r \<Rightarrow> if now en - windowStart r > RATE_LIMIT_WINDOW_MS then 1 else count r + 1)"
  using assms(2)
  by (auto simp: handler_POST_store [OF assms(1)] isRateLimited_def split: option.splits if_splits)

lemma five_rejected_use_budget:
  assumes posts: "\<forall>x\<in>set (x1 # xs). req_method (snd x) = ''POST'' \<and> clientIP (snd x) = a"
    and len: "length xs = 4"
    and win: "\<forall>x\<in>set xs. in_window (store (handler (fst x1) st (snd x1))) a (now (fst x))"
    and rej: "\<forall>out\<in>set (serve_all st (x1 # xs)). status (response out) = 400"
  shows "\<exists>r'. store_after st (x1 # xs) a = Some r' \<and> count r' = 5"
proof -
  obtain e1 req1 where x1: "x1 = (e1, req1)" by (cases x1)
  let ?st1 = "store (handler e1 st req1)"
  from posts x1 have "req_method req1 = ''POST''" "clientIP req1 = a" by auto
  from first_request_record [OF this] obtain r1 where r1: "?st1 a = Some r1" "1 \<le> count r1"
    by blast
  from win x1 have "\<forall>x\<in>set xs. now (fst x) - windowStart r1 \<le> RATE_LIMIT_WINDOW_MS"
    by (simp add: in_window_Some [where st = "?st1" and a = a, OF r1(1)])
  with posts have 1: "\<forall>x\<in>set xs. req_method (snd x) = ''POST'' \<and> clientIP (snd x) = a
             \<and> now (fst x) - windowStart r1 \<le> RATE_LIMIT_WINDOW_MS" by simp
  from rej x1 have 2: "\<forall>out\<in>set (serve_all ?st1 xs). status (response out) \<noteq> 429" by simp
  from count_exact_in_window [where st = "?st1" and a = a, OF 1 r1(1) refl 2]
  obtain r' where "store_after ?st1 xs a = Some r'" "count r' = count r1 + length xs"
    "xs = [] \<or> count r' \<le> 5" by blast
  with len r1(2) x1 show ?thesis by auto
qed

text \<open>
  Claim C9. A POST request that passes the rate limit uses up one unit of its address's
  budget whatever happens to it afterwards: the record of the address then holds count 1 in a
  fresh window, or one more than before in the running one. So when five requests from one
  address in one window are each rejected by validation (status 400), the count stands at 5
  and a sixth request in that window, even a fully valid one, is answered with status 429
  and the "too many" message, and nothing is read or inserted.
\<close>

theorem rejected_submissions_consume_budget:
  "(req_method rq = ''POST'' \<and> \<not> fst (isRateLimited (now en) (clientIP rq) s) \<longrightarrow>
      (\<exists>r'. store (handler en s rq) (clientIP rq) = Some r'
          \<and> count r' = (case s (clientIP rq) of None \<Rightarrow> 1
               | Some r \<Rightarrow> if now en - windowStart r > RATE_LIMIT_WINDOW_MS then 1 else count r + 1)))
   \<and> ((\<forall>x\<in>set (x1 # xs @ [(e, req)]). req_method (snd x) = ''POST'' \<and> clientIP (snd x) = a)
        \<and> length xs = 4
        \<and> (\<forall>x\<in>set (xs @ [(e, req)]). in_window (store (handler (fst x1) st (snd x1))) a (now (fst x)))
        \<and> (\<forall>out\<in>set (serve_all st (x1 # xs)). status (response out) = 400) \<longrightarrow>
          (\<exists>r'. store_after st (x1 # xs) a = Some r' \<and> count r' = 5)
        \<and> status (response (handler e (store_after st (x1 # xs)) req)) = 429
        \<and> resp_body (response (handler e (store_after st (x1 # xs)) req)) =
            Json (JObject [(''error'', JString ''Too many submissions. Please try again later.'')])
        \<and> effects (handler e (store_after st (x1 # xs)) req) = [])"
proof (intro conjI impI)
  assume "req_method rq = ''POST'' \<and> \<not> fst (isRateLimited (now en) (clientIP rq) s)"
  then show "\<exists>r'. store (handler en s rq) (clientIP rq) = Some r'
          \<and> count r' = (case s (clientIP rq) of None \<Rightarrow> 1
               | Some r \<Rightarrow> if now en - windowStart r > RATE_LIMIT_WINDOW_MS then 1 else count r + 1)"
    using consumes_one_unit by blast
next
  assume h: "(\<forall>x\<in>set (x1 # xs @ [(e, req)]). req_method (snd x) = ''POST'' \<and> clientIP (snd x) = a)
        \<and> length xs = 4
        \<and> (\<forall>x\<in>set (xs @ [(e, req)]). in_window (store (handler (fst x1) st (snd x1))) a (now (fst x)))
        \<and> (\<forall>out\<in>set (serve_all st (x1 # xs)). status (response out) = 400)"
  then have posts: "\<forall>x\<in>set (x1 # xs @ [(e, req)]). req_method (snd x) = ''POST'' \<and> clientIP (snd x) = a"
    and len: "length xs = 4"
    and win: "\<forall>x\<in>set (xs @ [(e, req)]). in_window (store (handler (fst x1) st (snd x1))) a (now (fst x))"
    and rej: "\<forall>out\<in>set (serve_all st (x1 # xs)). status (response out) = 400"
    by blast+
  from posts have posts': "\<forall>x\<in>set (x1 # xs). req_method (snd x) = ''POST'' \<and> clientIP (snd x) = a"
    by simp
  from win have win': "\<forall>x\<in>set xs. in_window (store (handler (fst x1) st (snd x1))) a (now (fst x))"
    by simp
  from five_rejected_use_budget [OF posts' len win' rej]
  show "\<exists>r'. store_after st (x1 # xs) a = Some r' \<and> count r' = 5" .
  from len have "4 \<le> length xs" by simp
  from sixth_is_limited [OF posts this win]
  have lim: "handler e (store_after st (x1 # xs)) req =
           \<lparr>response = too_many, store = store_after st (x1 # xs), effects = []\<rparr>" .
  show "status (response (handler e (store_after st (x1 # xs)) req)) = 429"
    and "resp_body (response (handler e (store_after st (x1 # xs)) req)) =
            Json (JObject [(''error'', JString ''Too many submissions. Please try again later.'')])"
    and "effects (handler e (store_after st (x1 # xs)) req) = []"
    by (simp_all add: lim too_many_fields)
qed

lemma bad_name_status:
  assumes "req_method req = ''POST''" and "req_json req = Inr b"
    and "destructure b = Inr (nm, em, msg)" and "name_out_of_bounds nm"
  shows "status (response (handler e st req)) =
           (if fst (isRateLimited (now e) (clientIP req) st) then 429 else 400)"
proof (cases "fst (isRateLimited (now e) (clientIP req) st)")
  case True
  then show ?thesis by (simp add: handler_limited [OF assms(1)] too_many_fields)
next
  case False
  from validate_stage_bad_name [OF assms(4)] obtain m where
    "validate_stage e nm em msg = (Inr (json_response 400 (error_body (Some m))), [])" by blast
  with handler_validated [OF assms(1) False assms(2,3)] False show ?thesis
    by (simp add: status_json_response)
qed

theorem rejected_submissions_consume_budget_witness:
  "let bad = \<lparr>req_method = ''POST'', req_headers = [],
              req_json = Inr (JObject [(''name'', JString ''A''), (''email'', JString ''x@y.com''),
                                       (''message'', JString ''Hi'')])\<rparr>;
       good = \<lparr>req_method = ''POST'', req_headers = [],
               req_json = Inr (JObject [(''name'', JString ''Al''), (''email'', JString ''A@B.COM''),
                                        (''message'', JString ''Hello there!'')])\<rparr>;
       five = [(\<lparr>now = 0, createClient_throws = None, insert_result = Inr None\<rparr>, bad),
               (\<lparr>now = 1000, createClient_throws = None, insert_result = Inr None\<rparr>, bad),
               (\<lparr>now = 2000, createClient_throws = None, insert_result = Inr None\<rparr>, bad),
               (\<lparr>now = 3000, createClient_throws = None, insert_result = Inr None\<rparr>, bad),
               (\<lparr>now = 4000, createClient_throws = None, insert_result = Inr None\<rparr>, bad)];
       sixth = \<lparr>now = 5000, createClient_throws = None, insert_result = Inr None\<rparr>
   in (\<exists>r'. store_after rateLimitStore five ''unknown'' = Some r' \<and> count r' = 5)
      \<and> status (response (handler sixth (store_after rateLimitStore five) good)) = 429
      \<and> effects (handler sixth (store_after rateLimitStore five) good) = []"
proof -
  let ?b = "JObject [(''name'', JString ''A''), (''email'', JString ''x@y.com''),
                     (''message'', JString ''Hi'')]"
  let ?bad = "\<lparr>req_method = ''POST'', req_headers = [], req_json = Inr ?b\<rparr>"
  let ?good = "\<lparr>req_method = ''POST'', req_headers = [],
               req_json = Inr (JObject [(''name'', JString ''Al''), (''email'', JString ''A@B.COM''),
                                        (''message'', JString ''Hello there!'')])\<rparr>"
  let ?x1 = "(\<lparr>now = 0, createClient_throws = None, insert_result = Inr None\<rparr>, ?bad)"
  let ?xs = "[(\<lparr>now = 1000, createClient_throws = None, insert_result = Inr None\<rparr>, ?bad),
               (\<lparr>now = 2000, createClient_throws = None, insert_result = Inr None\<rparr>, ?bad),
               (\<lparr>now = 3000, createClient_throws = None, insert_result = Inr None\<rparr>, ?bad),
               (\<lparr>now = 4000, createClient_throws = None, insert_result = Inr None\<rparr>, ?bad)]"
  let ?e = "\<lparr>now = 5000, createClient_throws = None, insert_result = Inr None\<rparr>"
  have ip: "clientIP ?bad = ''unknown''" "clientIP ?good = ''unknown''"
    by (simp_all add: clientIP_no_headers)
  have 1: "\<forall>x\<in>set (?x1 # ?xs @ [(?e, ?good)]).
      req_method (snd x) = ''POST'' \<and> clientIP (snd x) = ''unknown''"
    by (simp add: ip)
  have 2: "length ?xs = 4" by simp
  have 3: "\<forall>x\<in>set (?xs @ [(?e, ?good)]).
      in_window (store (handler (fst ?x1) rateLimitStore (snd ?x1))) ''unknown'' (now (fst x))"
    by (simp add: handler_POST_store ip isRateLimited_def rateLimitStore_def
        in_window_def RATE_LIMIT_WINDOW_MS_def)
  have d: "destructure ?b = Inr (Some (JString ''A''), Some (JString ''x@y.com''), Some (JString ''Hi''))"
    by (simp add: destructure_def)
  have n: "name_out_of_bounds (Some (JString ''A''))"
    by (simp add: name_out_of_bounds_def trim_A)
  have s: "status (response (handler en s ?bad)) =
           (if fst (isRateLimited (now en) ''unknown'' s) then 429 else 400)" for en s
    using bad_name_status [of ?bad ?b _ _ _ en s, OF _ _ d n] by (simp add: ip)
  have 4: "\<forall>out\<in>set (serve_all rateLimitStore (?x1 # ?xs)). status (response out) = 400"
    by (simp add: s handler_POST_store ip isRateLimited_def rateLimitStore_def
        RATE_LIMIT_WINDOW_MS_def MAX_SUBMISSIONS_PER_WINDOW_def)
  from rejected_submissions_consume_budget [of _ _ _ ?x1 ?xs ?e ?good "''unknown''" rateLimitStore] 1 2 3 4
  show ?thesis unfolding Let_def by blast
qed

lemma clientIP_headerless: "headerless req \<Longrightarrow> clientIP req = ''unknown''"
  by (simp add: headerless_def clientIP_def)

text \<open>
  Claim C10. A request with neither an \<open>x-forwarded-for\<close> nor a \<open>cf-connecting-ip\<close>
  header is attributed to the address \<open>unknown\<close>, so all such POST requests share that one
  record. Let the instance serve any run of requests that starts with such a POST request,
  the rest of any method and with any headers, where every later POST request attributed to
  \<open>unknown\<close> arrives while the window of that record is still running: of the headerless POST
  requests of the run, at most five are not answered 429.
\<close>

theorem headerless_requests_share_unknown_bucket:
  assumes "req_method (snd x1) = ''POST''" and "headerless (snd x1)"
    and "\<forall>x\<in>set xs. post_from ''unknown'' (snd x) \<longrightarrow>
           in_window (store (handler (fst x1) st (snd x1))) ''unknown'' (now (fst x))"
  shows "(\<forall>rq. headerless rq \<longrightarrow> clientIP rq = ''unknown'')
       \<and> accepted (\<lambda>rq. req_method rq = ''POST'' \<and> headerless rq) st (x1 # xs) \<le> 5"
proof -
  from assms(1,2) have "post_from ''unknown'' (snd x1)"
    by (simp add: post_from_def clientIP_headerless)
  from at_most_five_accepted [OF this assms(3)]
  have "accepted (post_from ''unknown'') st (x1 # xs) \<le> 5" .
  moreover have "accepted (\<lambda>rq. req_method rq = ''POST'' \<and> headerless rq) st (x1 # xs)
      \<le> accepted (post_from ''unknown'') st (x1 # xs)"
    by (rule accepted_mono) (simp add: post_from_def clientIP_headerless)
  ultimately show ?thesis by (simp add: clientIP_headerless)
qed

theorem headerless_requests_share_unknown_bucket_witness:
  "let r1 = \<lparr>req_method = ''POST'', req_headers = [(''user-agent'', ''curl/8.0'')],
             req_json = Inr (JObject [(''name'', JString ''Al''), (''email'', JString ''A@B.COM''),
                                      (''message'', JString ''Hello there!'')])\<rparr>;
       r2 = \<lparr>req_method = ''POST'', req_headers = [(''user-agent'', ''Mozilla/5.0'')],
             req_json = Inl SyntaxError\<rparr>;
       other = \<lparr>req_method = ''POST'', req_headers = [(''cf-connecting-ip'', ''198.51.100.9'')],
                req_json = Inl SyntaxError\<rparr>;
       preflight = \<lparr>req_method = ''OPTIONS'', req_headers = [], req_json = Inl SyntaxError\<rparr>;
       run = [(\<lparr>now = 0, createClient_throws = None, insert_result = Inr None\<rparr>, r1),
              (\<lparr>now = 10, createClient_throws = None, insert_result = Inr None\<rparr>, r2),
              (\<lparr>now = 15, createClient_throws = None, insert_result = Inr None\<rparr>, other),
              (\<lparr>now = 20, createClient_throws = None, insert_result = Inr None\<rparr>, r1),
              (\<lparr>now = 25, createClient_throws = None, insert_result = Inr None\<rparr>, preflight),
              (\<lparr>now = 30, createClient_throws = None, insert_result = Inr None\<rparr>, r2),
              (\<lparr>now = 40, createClient_throws = None, insert_result = Inr None\<rparr>, r1),
              (\<lparr>now = 50, createClient_throws = None, insert_result = Inr None\<rparr>, r2),
              (\<lparr>now = 60, createClient_throws = None, insert_result = Inr None\<rparr>, r1)]
   in clientIP r1 = ''unknown'' \<and> clientIP r2 = ''unknown''
      \<and> accepted (\<lambda>rq. req_method rq = ''POST'' \<and> headerless rq) rateLimitStore run \<le> 5"
proof -
  let ?r1 = "\<lparr>req_method = ''POST'', req_headers = [(''user-agent'', ''curl/8.0'')],
             req_json = Inr (JObject [(''name'', JString ''Al''), (''email'', JString ''A@B.COM''),
                                      (''message'', JString ''Hello there!'')])\<rparr>"
  let ?r2 = "\<lparr>req_method = ''POST'', req_headers = [(''user-agent'', ''Mozilla/5.0'')],
             req_json = Inl SyntaxError\<rparr>"
  let ?other = "\<lparr>req_method = ''POST'', req_headers = [(''cf-connecting-ip'', ''198.51.100.9'')],
                req_json = Inl SyntaxError\<rparr>"
  let ?preflight = "\<lparr>req_method = ''OPTIONS'', req_headers = [], req_json = Inl SyntaxError\<rparr>"
  let ?x1 = "(\<lparr>now = 0, createClient_throws = None, insert_result = Inr None\<rparr>, ?r1)"
  let ?xs = "[(\<lparr>now = 10, createClient_throws = None, insert_result = Inr None\<rparr>, ?r2),
              (\<lparr>now = 15, createClient_throws = None, insert_result = Inr None\<rparr>, ?other),
              (\<lparr>now = 20, createClient_throws = None, insert_result = Inr None\<rparr>, ?r1),
              (\<lparr>now = 25, createClient_throws = None, insert_result = Inr None\<rparr>, ?preflight),
              (\<lparr>now = 30, createClient_throws = None, insert_result = Inr None\<rparr>, ?r2),
              (\<lparr>now = 40, createClient_throws = None, insert_result = Inr None\<rparr>, ?r1),
              (\<lparr>now = 50, createClient_throws = None, insert_result = Inr None\<rparr>, ?r2),
              (\<lparr>now = 60, createClient_throws = None, insert_result = Inr None\<rparr>, ?r1)]"
  have h: "headerless ?r1" "headerless ?r2" by (simp_all add: headerless_def)
  have 1: "req_method (snd ?x1) = ''POST''" and 2: "headerless (snd ?x1)"
    by (simp_all add: h)
  have ip: "clientIP ?r1 = ''unknown''" by (simp add: clientIP_headerless h)
  have 3: "\<forall>x\<in>set ?xs. post_from ''unknown'' (snd x) \<longrightarrow>
      in_window (store (handler (fst ?x1) rateLimitStore (snd ?x1))) ''unknown'' (now (fst x))"
    by (simp add: handler_POST_store ip isRateLimited_def rateLimitStore_def
        in_window_def RATE_LIMIT_WINDOW_MS_def)
  from headerless_requests_share_unknown_bucket [OF 1 2 3] h show ?thesis unfolding Let_def by simp
qed

end
